theory Spec2Isabelle
  imports Main "HOL-Library.Word"
begin

unbundle bit_operations_syntax

section \<open>pdf-pages-count: a shallow embedding of \<^verbatim>\<open>src/index.js\<close>\<close>

text \<open>
  The module counts the pages of a PDF held in a byte buffer. The source reads the
  buffer both as bytes (\<^verbatim>\<open>buffer[pos]\<close>) and as a latin-1 string
  (\<^verbatim>\<open>buffer.toString("latin1")\<close>); latin-1 maps every byte to one character, so
  one type serves for both views: a buffer is a \<^typ>\<open>string\<close>, a list of 8-bit
  characters, and a position is an index into it.

  Conventions of the embedding.
  \<^item> \<^verbatim>\<open>throw new Error(msg)\<close> is the value \<open>Inl (Error msg)\<close> of a sum type; a
    function that can throw returns \<open>error + 'a\<close>.
  \<^item> \<^verbatim>\<open>zlib.inflateSync\<close> is a function of Node, not of this module: it is a
    parameter \<open>inflate\<close> of every function that calls it, \<open>None\<close> when it throws.
  \<^item> JavaScript numbers are taken as exact integers (the rounding of doubles beyond
    \<open>2^53\<close> is not modelled); \<^verbatim>\<open>parseInt\<close> yielding \<^verbatim>\<open>NaN\<close> is \<open>None\<close>.
  \<^item> Each regular expression of the source is a matcher on the text that starts at
    the position tried; the regular expression is quoted beside it.
\<close>

subsection \<open>Errors\<close>

datatype error =
    Error string   \<comment> \<open>\<^verbatim>\<open>new Error(message)\<close>\<close>
  | ZlibError      \<comment> \<open>an exception of \<^verbatim>\<open>zlib.inflateSync\<close> that is not wrapped\<close>
  | RangeError     \<comment> \<open>"Maximum call stack size exceeded"\<close>

type_synonym 'a result = "error + 'a"

definition bindR :: "'a result \<Rightarrow> ('a \<Rightarrow> 'b result) \<Rightarrow> 'b result" where
  "bindR r f = (case r of Inl e \<Rightarrow> Inl e | Inr x \<Rightarrow> f x)"

lemma bindR_simps [simp]:
  "bindR (Inl e) f = Inl e"
  "bindR (Inr x) f = f x"
  by (simp_all add: bindR_def)

subsection \<open>Character classes\<close>

definition byte :: "char \<Rightarrow> nat" where
  "byte c = of_char c"

text \<open>\<^verbatim>\<open>\d\<close>\<close>

definition isDigit :: "char \<Rightarrow> bool" where
  "isDigit c = (48 \<le> byte c \<and> byte c \<le> 57)"

text \<open>\<^verbatim>\<open>\w\<close>: letters, digits and the underscore.\<close>

definition isWordChar :: "char \<Rightarrow> bool" where
  "isWordChar c =
     (isDigit c \<or> (65 \<le> byte c \<and> byte c \<le> 90) \<or> (97 \<le> byte c \<and> byte c \<le> 122) \<or> byte c = 95)"

text \<open>
  \<^verbatim>\<open>\s\<close> of a JavaScript regular expression, and the characters
  \<^verbatim>\<open>String.prototype.trim\<close> removes, among the 256 latin-1 characters: TAB, LF, VT,
  FF, CR, space and the no-break space.
\<close>

definition isSpaceJs :: "char \<Rightarrow> bool" where
  "isSpaceJs c = (byte c \<in> {9, 10, 11, 12, 13, 32, 160})"

text \<open>The white space of \<^verbatim>\<open>skipWhitespace\<close>: NUL, TAB, LF, FF, CR, space.\<close>

definition isPdfWhitespace :: "char \<Rightarrow> bool" where
  "isPdfWhitespace c = (byte c \<in> {0, 9, 10, 12, 13, 32})"

subsection \<open>Numbers in text\<close>

definition digitVal :: "char \<Rightarrow> nat" where
  "digitVal c = byte c - 48"

text \<open>
  \<^verbatim>\<open>parseInt(ds, 10)\<close> on a string of decimal digits, as the natural number that the
  digits write. The source has the double next to that number: the two are the same below
  \<open>2 ^ 53\<close>, and the double is \<^verbatim>\<open>Infinity\<close> from \<open>2 ^ 1024 - 2 ^ 970\<close> on.
\<close>

definition natOfDigits :: "string \<Rightarrow> nat" where
  "natOfDigits ds = foldl (\<lambda>a c. 10 * a + digitVal c) 0 ds"

subsection \<open>Matching pieces of regular expressions\<close>

text \<open>A literal: the rest of the text after it.\<close>

fun mLit :: "string \<Rightarrow> string \<Rightarrow> string option" where
  "mLit [] s = Some s"
| "mLit (c # cs) [] = None"
| "mLit (c # cs) (d # ds) = (if c = d then mLit cs ds else None)"

text \<open>
  \<^verbatim>\<open>\s*\<close> and \<^verbatim>\<open>\s+\<close>, greedy. Whatever follows them in the expressions of this
  module starts with a character that is not white space, so giving back white space
  never makes a match succeed and the greedy choice is the only one.
\<close>

definition mSpaces0 :: "string \<Rightarrow> string" where
  "mSpaces0 s = dropWhile isSpaceJs s"

definition mSpaces1 :: "string \<Rightarrow> string option" where
  "mSpaces1 s = (case s of [] \<Rightarrow> None | c # cs \<Rightarrow> if isSpaceJs c then Some (dropWhile isSpaceJs cs) else None)"

text \<open>
  \<^verbatim>\<open>(\d+)\<close>, greedy: the digits and the rest. It is followed by \<^verbatim>\<open>\s+\<close>, a
  literal that is not a digit, or the end of the expression, so again the greedy choice
  is the only one.
\<close>

definition mDigits1 :: "string \<Rightarrow> (string \<times> string) option" where
  "mDigits1 s = (let ds = takeWhile isDigit s in if ds = [] then None else Some (ds, dropWhile isDigit s))"

text \<open>\<^verbatim>\<open>(\d{n})\<close>\<close>

definition mDigitsN :: "nat \<Rightarrow> string \<Rightarrow> (string \<times> string) option" where
  "mDigitsN n s = (if n \<le> length s \<and> list_all isDigit (take n s) then Some (take n s, drop n s) else None)"

text \<open>\<^verbatim>\<open>\b\<close> after a word character: the text ends or goes on with a non-word character.\<close>

definition mWordEnd :: "string \<Rightarrow> bool" where
  "mWordEnd s = (case s of [] \<Rightarrow> True | c # cs \<Rightarrow> \<not> isWordChar c)"

text \<open>
  An expression without \<^verbatim>\<open>^\<close> is tried at every position from the left
  (\<^verbatim>\<open>String.prototype.match\<close>, \<^verbatim>\<open>RegExp.prototype.test\<close>); \<open>reSearch\<close> gives the
  result at the first position that matches.
\<close>

fun reSearch :: "(string \<Rightarrow> 'a option) \<Rightarrow> string \<Rightarrow> 'a option" where
  "reSearch m [] = m []"
| "reSearch m (c # cs) = (case m (c # cs) of Some r \<Rightarrow> Some r | None \<Rightarrow> reSearch m cs)"

text \<open>
  A loop \<^verbatim>\<open>while ((m = re.exec(s)) !== null)\<close> over a global expression: the matches
  from the left, each search starting where the last match ended. The matcher gives the
  length of the match with its result; the list holds the index of each match. Every
  expression of this module matches at least one character.
\<close>

function reExecAll :: "(string \<Rightarrow> ('a \<times> nat) option) \<Rightarrow> nat \<Rightarrow> string \<Rightarrow> (nat \<times> 'a) list" where
  "reExecAll m i s =
     (case m s of
        Some (r, n) \<Rightarrow> (i, r) # (if n = 0 \<or> s = [] then [] else reExecAll m (i + n) (drop n s))
      | None \<Rightarrow> (case s of [] \<Rightarrow> [] | c # cs \<Rightarrow> reExecAll m (Suc i) cs))"
  by pat_completeness auto
termination
  by (relation "measure (\<lambda>(m, i, s). length s)") auto

declare reExecAll.simps [simp del]

subsection \<open>The PNG predictor\<close>

text \<open>
  One byte of a row (\<^verbatim>\<open>pngPredictorDecode\<close>, the body of the inner loop): \<open>x\<close> the
  byte read, \<open>left\<close> the byte decoded before it in the row, \<open>up\<close> the byte above
  and \<open>c\<close> the byte above \<open>left\<close>. A filter byte other than 1 to 4 leaves \<open>x\<close> as it is.
\<close>

definition paeth :: "nat \<Rightarrow> nat \<Rightarrow> nat \<Rightarrow> nat" where
  "paeth a b c =
     (let p = int a + int b - int c;
          pa = \<bar>p - int a\<bar>;
          pb = \<bar>p - int b\<bar>;
          pc = \<bar>p - int c\<bar>
      in if pa \<le> pb \<and> pa \<le> pc then a else if pb \<le> pc then b else c)"

definition pngFilterByte :: "nat \<Rightarrow> nat \<Rightarrow> nat \<Rightarrow> nat \<Rightarrow> nat \<Rightarrow> nat" where
  "pngFilterByte ftype x left up c =
     (if ftype = 0 then x
      else if ftype = 1 then (x + left) mod 256
      else if ftype = 2 then (x + up) mod 256
      else if ftype = 3 then (x + (left + up) div 2) mod 256
      else if ftype = 4 then (x + paeth left up c) mod 256
      else x)"

text \<open>
  The inner loop over \<open>i < rowSize\<close>: \<open>xs\<close> the bytes of the row that are left,
  \<open>ups\<close> the bytes of the row above from the same column on, empty for the first row
  (\<^verbatim>\<open>prevRowStart = -1\<close>), where \<open>up\<close> and \<open>c\<close> read as 0; \<open>left\<close> and \<open>c\<close> are 0
  at \<open>i = 0\<close>.
\<close>

fun pngRow :: "nat \<Rightarrow> nat \<Rightarrow> nat \<Rightarrow> nat list \<Rightarrow> nat list \<Rightarrow> nat list" where
  "pngRow ftype left c [] ups = []"
| "pngRow ftype left c (x # xs) ups =
     (let up = (case ups of [] \<Rightarrow> 0 | u # us \<Rightarrow> u);
          y = pngFilterByte ftype x left up c
      in y # pngRow ftype y up xs (tl ups))"

text \<open>
  The outer loop: \<open>prev\<close> is the row decoded last, empty before the first row. A row
  that is cut short ends the loop.
\<close>

function pngRows :: "nat \<Rightarrow> nat list \<Rightarrow> nat list \<Rightarrow> nat list" where
  "pngRows rowSize prev [] = []"
| "pngRows rowSize prev (ftype # rest) =
     (if length rest < rowSize then []
      else let row = pngRow ftype 0 0 (take rowSize rest) prev
           in row @ pngRows rowSize row (drop rowSize rest))"
  by pat_completeness auto
termination
  by (relation "measure (\<lambda>(n, p, xs). length xs)") auto

definition pngPredictorDecode :: "string \<Rightarrow> nat \<Rightarrow> string" where
  "pngPredictorDecode buf columns = map char_of (pngRows columns [] (map byte buf))"

subsection \<open>Reading the buffer\<close>

text \<open>\<^verbatim>\<open>buffer[pos]\<close>: \<^verbatim>\<open>undefined\<close> beyond the end, which no comparison of the source equals.\<close>

definition byteAt :: "string \<Rightarrow> nat \<Rightarrow> nat option" where
  "byteAt buf pos = (case drop pos buf of [] \<Rightarrow> None | c # cs \<Rightarrow> Some (byte c))"

text \<open>
  \<^verbatim>\<open>buffer.toString("latin1", start, end)\<close>, \<^verbatim>\<open>buffer.slice(start, end)\<close> and
  \<^verbatim>\<open>s.slice(start, end)\<close> for positions that are not negative: the end is cut to
  the length, and nothing is left when the start is not before it.
\<close>

definition slice :: "string \<Rightarrow> nat \<Rightarrow> nat \<Rightarrow> string" where
  "slice buf start end = take (end - start) (drop start buf)"

text \<open>
  \<^verbatim>\<open>s.indexOf(needle, from)\<close> and \<^verbatim>\<open>buffer.indexOf(needle, from)\<close>: the first
  index not before \<open>from\<close> where the needle stands.
\<close>

fun findSub :: "string \<Rightarrow> string \<Rightarrow> nat option" where
  "findSub needle [] = (if needle = [] then Some 0 else None)"
| "findSub needle (c # cs) =
     (if mLit needle (c # cs) \<noteq> None then Some 0 else map_option Suc (findSub needle cs))"

definition indexOf :: "string \<Rightarrow> string \<Rightarrow> nat \<Rightarrow> nat option" where
  "indexOf s needle from = map_option (\<lambda>i. from + i) (findSub needle (drop from s))"

text \<open>
  \<^verbatim>\<open>s.lastIndexOf(needle, from)\<close> and \<^verbatim>\<open>buffer.lastIndexOf(needle, from)\<close>: the
  last index not after \<open>from\<close> where the needle stands. \<open>lastMatch\<close> walks the text
  from index \<open>i\<close> and keeps the last index found.
\<close>

fun lastMatch :: "string \<Rightarrow> nat \<Rightarrow> nat \<Rightarrow> string \<Rightarrow> nat option \<Rightarrow> nat option" where
  "lastMatch needle i lim [] acc = acc"
| "lastMatch needle i lim (c # cs) acc =
     (if lim < i then acc
      else lastMatch needle (Suc i) lim cs (if mLit needle (c # cs) \<noteq> None then Some i else acc))"

definition lastIndexOf :: "string \<Rightarrow> string \<Rightarrow> nat \<Rightarrow> nat option" where
  "lastIndexOf s needle from = lastMatch needle 0 from s None"

text \<open>\<^verbatim>\<open>String.prototype.trim\<close>\<close>

definition trim :: "string \<Rightarrow> string" where
  "trim s = rev (dropWhile isSpaceJs (rev (dropWhile isSpaceJs s)))"

text \<open>
  \<^verbatim>\<open>s.split(/\s+/)\<close> of a trimmed string: the pieces between runs of white space;
  the empty string gives one empty piece.
\<close>

function splitWs :: "string \<Rightarrow> string \<Rightarrow> string list" where
  "splitWs cur [] = [rev cur]"
| "splitWs cur (c # cs) =
     (if isSpaceJs c then rev cur # splitWs [] (dropWhile isSpaceJs cs) else splitWs (c # cur) cs)"
  by pat_completeness auto
termination
  by (relation "measure (\<lambda>(cur, s). length s)") (auto simp: length_dropWhile_le less_Suc_eq_le)

definition splitSpaces :: "string \<Rightarrow> string list" where
  "splitSpaces s = splitWs [] s"

text \<open>
  \<^verbatim>\<open>parseInt(t, 10)\<close>: leading white space, a sign, then decimal digits; what follows
  the digits is ignored, and \<^verbatim>\<open>NaN\<close> (\<open>None\<close>) results when there is no digit.
\<close>

definition parseInt :: "string \<Rightarrow> int option" where
  "parseInt t =
     (let s = dropWhile isSpaceJs t;
          (neg, r) = (case s of [] \<Rightarrow> (False, s)
                      | c # cs \<Rightarrow> if c = CHR ''-'' then (True, cs) else if c = CHR ''+'' then (False, cs) else (False, s));
          ds = takeWhile isDigit r
      in if ds = [] then None
         else Some (if neg then - int (natOfDigits ds) else int (natOfDigits ds)))"

subsection \<open>Lexical primitives\<close>

definition skipWhitespace :: "string \<Rightarrow> nat \<Rightarrow> nat" where
  "skipWhitespace buffer pos = pos + length (takeWhile isPdfWhitespace (drop pos buffer))"

definition readAscii :: "string \<Rightarrow> nat \<Rightarrow> nat \<Rightarrow> string" where
  "readAscii buffer pos len = slice buffer pos (pos + len)"

definition isEol :: "char \<Rightarrow> bool" where
  "isEol c = (byte c = 10 \<or> byte c = 13)"

definition readLineAscii :: "string \<Rightarrow> nat \<Rightarrow> string" where
  "readLineAscii buffer pos =
     (if length buffer \<le> pos then [] else takeWhile (\<lambda>c. \<not> isEol c) (drop pos buffer))"

text \<open>The number of characters \<^verbatim>\<open>advanceToNextLine\<close> steps over: up to and with LF, CR or CR LF.\<close>

fun lineAdvance :: "string \<Rightarrow> nat" where
  "lineAdvance [] = 0"
| "lineAdvance (c # cs) =
     (if byte c = 10 then 1
      else if byte c = 13 then (case cs of [] \<Rightarrow> 1 | d # ds \<Rightarrow> if byte d = 10 then 2 else 1)
      else Suc (lineAdvance cs))"

definition advanceToNextLine :: "string \<Rightarrow> nat \<Rightarrow> nat" where
  "advanceToNextLine buffer pos = pos + lineAdvance (drop pos buffer)"

definition peekKeyword :: "string \<Rightarrow> nat \<Rightarrow> string \<Rightarrow> bool" where
  "peekKeyword buffer pos kw = (slice buffer pos (pos + length kw) = kw)"

text \<open>
  \<^verbatim>\<open>readNumberAscii\<close>: an optional sign and decimal digits; the value is \<open>None\<close>
  (\<^verbatim>\<open>null\<close>) when there is no digit. The second component is \<^verbatim>\<open>end\<close>.
\<close>

definition readNumberAscii :: "string \<Rightarrow> nat \<Rightarrow> int option \<times> nat" where
  "readNumberAscii buffer pos =
     (let p = (if byteAt buffer pos = Some 0x2b \<or> byteAt buffer pos = Some 0x2d then pos + 1 else pos);
          start = p;
          p' = p + length (takeWhile isDigit (drop p buffer))
      in if p' = start then (None, pos)
         else (parseInt (slice buffer pos p'), p'))"

text \<open>
  \<^verbatim>\<open>readDictString\<close>. \<open>dictScan\<close> is its loop: the number of characters from \<open>p\<close>
  to the end position, \<open>depth\<close> the nesting so far.
\<close>

fun dictScan :: "int \<Rightarrow> string \<Rightarrow> nat" where
  "dictScan depth [] = 0"
| "dictScan depth [a] = 1"
| "dictScan depth (a # b # rest) =
     (if a = CHR ''<'' \<and> b = CHR ''<'' then 2 + dictScan (depth + 1) rest
      else if a = CHR ''>'' \<and> b = CHR ''>'' then
        (if depth - 1 = 0 then 2 else 2 + dictScan (depth - 1) rest)
      else 1 + dictScan depth (b # rest))"

definition startsDict :: "string \<Rightarrow> nat \<Rightarrow> bool" where
  "startsDict buffer pos = (byteAt buffer pos = Some 0x3c \<and> byteAt buffer (pos + 1) = Some 0x3c)"

text \<open>
  The result is the pair of \<^verbatim>\<open>dictString\<close> and \<^verbatim>\<open>endPos\<close>; \<open>dictStringAt\<close> is
  \<^verbatim>\<open>readDictString\<close> after its first test, for the places where the caller has made
  the same test just before the call, so that the call cannot throw.
\<close>

definition dictStringAt :: "string \<Rightarrow> nat \<Rightarrow> string \<times> nat" where
  "dictStringAt buffer pos =
     (let p = pos + dictScan 0 (drop pos buffer) in (slice buffer pos p, p))"

definition readDictString :: "string \<Rightarrow> nat \<Rightarrow> (string \<times> nat) result" where
  "readDictString buffer pos =
     (if \<not> startsDict buffer pos then Inl (Error ''Expected <<'')
      else Inr (dictStringAt buffer pos))"

subsection \<open>Fields of a dictionary\<close>

record ref =
  obj :: nat
  gen :: nat

text \<open>
  \<^verbatim>\<open>/\s*Key\s+(\d+)\s+(\d+)\s+R\<close>, the expression \<^verbatim>\<open>parseIndirectRefFromDict\<close>
  builds for a key of letters.
\<close>

definition reIndirectRef :: "string \<Rightarrow> string \<Rightarrow> ref option" where
  "reIndirectRef key s =
     (case mLit ''/'' s of None \<Rightarrow> None | Some s1 \<Rightarrow>
      case mLit key (mSpaces0 s1) of None \<Rightarrow> None | Some s2 \<Rightarrow>
      case mSpaces1 s2 of None \<Rightarrow> None | Some s3 \<Rightarrow>
      case mDigits1 s3 of None \<Rightarrow> None | Some (d1, s4) \<Rightarrow>
      case mSpaces1 s4 of None \<Rightarrow> None | Some s5 \<Rightarrow>
      case mDigits1 s5 of None \<Rightarrow> None | Some (d2, s6) \<Rightarrow>
      case mSpaces1 s6 of None \<Rightarrow> None | Some s7 \<Rightarrow>
      case mLit ''R'' s7 of None \<Rightarrow> None | Some s8 \<Rightarrow>
        Some \<lparr>obj = natOfDigits d1, gen = natOfDigits d2\<rparr>)"

definition parseIndirectRefFromDict :: "string \<Rightarrow> string \<Rightarrow> ref option" where
  "parseIndirectRefFromDict dictString key = reSearch (reIndirectRef key) dictString"

text \<open>\<^verbatim>\<open>/\s*Key\s+(\d+)\<close>, the expression of \<^verbatim>\<open>parseIntFromDict\<close>.\<close>

definition reIntField :: "string \<Rightarrow> string \<Rightarrow> nat option" where
  "reIntField key s =
     (case mLit ''/'' s of None \<Rightarrow> None | Some s1 \<Rightarrow>
      case mLit key (mSpaces0 s1) of None \<Rightarrow> None | Some s2 \<Rightarrow>
      case mSpaces1 s2 of None \<Rightarrow> None | Some s3 \<Rightarrow>
      case mDigits1 s3 of None \<Rightarrow> None | Some (d, s4) \<Rightarrow> Some (natOfDigits d))"

definition parseIntFromDict :: "string \<Rightarrow> string \<Rightarrow> nat option" where
  "parseIntFromDict dictString key = reSearch (reIntField key) dictString"

text \<open>
  \<^verbatim>\<open>\/Type\s*\/Name\b\<close> for a name of letters: the length of the match. With
  \<^verbatim>\<open>Page\<close> it does not match \<^verbatim>\<open>/Type /Pages\<close>, where a word character follows.
\<close>

definition reTypeName :: "string \<Rightarrow> string \<Rightarrow> (unit \<times> nat) option" where
  "reTypeName name s =
     (case mLit ''/Type'' s of None \<Rightarrow> None | Some s1 \<Rightarrow>
      case mLit (''/'' @ name) (mSpaces0 s1) of None \<Rightarrow> None | Some s2 \<Rightarrow>
        if mWordEnd s2 then Some ((), length s - length s2) else None)"

text \<open>\<^verbatim>\<open>/\/Type\s*\/Name\b/.test(dict)\<close>\<close>

definition hasType :: "string \<Rightarrow> string \<Rightarrow> bool" where
  "hasType name dict = (reSearch (reTypeName name) dict \<noteq> None)"

text \<open>\<^verbatim>\<open>/FlateDecode/.test(dict)\<close>\<close>

definition hasFlateDecode :: "string \<Rightarrow> bool" where
  "hasFlateDecode dict = (findSub ''FlateDecode'' dict \<noteq> None)"

text \<open>\<^verbatim>\<open>^(\d+)\s+(\d+)\s+obj\b\<close>, tried on the trimmed header line.\<close>

definition reObjHeader :: "string \<Rightarrow> bool" where
  "reObjHeader s =
     (case mDigits1 s of None \<Rightarrow> False | Some (d1, s1) \<Rightarrow>
      case mSpaces1 s1 of None \<Rightarrow> False | Some s2 \<Rightarrow>
      case mDigits1 s2 of None \<Rightarrow> False | Some (d2, s3) \<Rightarrow>
      case mSpaces1 s3 of None \<Rightarrow> False | Some s4 \<Rightarrow>
      case mLit ''obj'' s4 of None \<Rightarrow> False | Some s5 \<Rightarrow> mWordEnd s5)"

subsection \<open>Indirect objects\<close>

text \<open>
  \<^verbatim>\<open>readIndirectObject\<close>. Of its result the callers read \<^verbatim>\<open>dictString\<close> only, which
  is the result here; the expected object number and generation are compared with the
  header in a statement whose body is empty, so they are no arguments here.
\<close>

definition readIndirectObject :: "string \<Rightarrow> nat \<Rightarrow> string result" where
  "readIndirectObject buffer offset =
     (let headerLine = trim (readLineAscii buffer offset)
      in if \<not> reObjHeader headerLine then Inl (Error ''Invalid object header'')
         else let pos = skipWhitespace buffer (advanceToNextLine buffer offset)
              in if \<not> startsDict buffer pos then Inl (Error ''Object dictionary not found'')
                 else bindR (readDictString buffer pos) (\<lambda>(dictStr, endPos). Inr dictStr))"

subsection \<open>Cross-reference streams\<close>

text \<open>
  \<^verbatim>\<open>\/Name\s+(\d+)\<close>: the number and the length of the match. The source has it for
  \<^verbatim>\<open>Count\<close>, \<^verbatim>\<open>Size\<close>, \<^verbatim>\<open>Predictor\<close> and \<^verbatim>\<open>Columns\<close>.
\<close>

definition reNamedInt :: "string \<Rightarrow> string \<Rightarrow> (nat \<times> nat) option" where
  "reNamedInt name s =
     (case mLit (''/'' @ name) s of None \<Rightarrow> None | Some s1 \<Rightarrow>
      case mSpaces1 s1 of None \<Rightarrow> None | Some s2 \<Rightarrow>
      case mDigits1 s2 of None \<Rightarrow> None | Some (d, s3) \<Rightarrow>
        Some (natOfDigits d, length s - length s3))"

record decodeParms =
  predictor :: "nat option"
  columns :: "nat option"

text \<open>\<^verbatim>\<open>\/DecodeParms\s*<<([^>]*)>>\<close>: the text between the brackets.\<close>

definition reDecodeParms :: "string \<Rightarrow> string option" where
  "reDecodeParms s =
     (case mLit ''/DecodeParms'' s of None \<Rightarrow> None | Some s1 \<Rightarrow>
      case mLit ''<<'' (mSpaces0 s1) of None \<Rightarrow> None | Some s2 \<Rightarrow>
      case mLit ''>>'' (dropWhile (\<lambda>c. c \<noteq> CHR ''>'') s2) of None \<Rightarrow> None | Some s3 \<Rightarrow>
        Some (takeWhile (\<lambda>c. c \<noteq> CHR ''>'') s2))"

definition parseDecodeParms :: "string \<Rightarrow> decodeParms option" where
  "parseDecodeParms dictString =
     (case reSearch reDecodeParms dictString of None \<Rightarrow> None
      | Some s \<Rightarrow> Some \<lparr>predictor = map_option fst (reSearch (reNamedInt ''Predictor'') s),
                        columns = map_option fst (reSearch (reNamedInt ''Columns'') s)\<rparr>)"

definition readSize :: "string \<Rightarrow> nat result" where
  "readSize dictString =
     (case reSearch (reNamedInt ''Size'') dictString of None \<Rightarrow> Inl (Error ''Size not found'')
      | Some (n, l) \<Rightarrow> Inr n)"

text \<open>\<^verbatim>\<open>\/W\s*\[\s*(\d+)\s+(\d+)\s+(\d+)\s*\]\<close>\<close>

definition reWArray :: "string \<Rightarrow> (nat \<times> nat \<times> nat) option" where
  "reWArray s =
     (case mLit ''/W'' s of None \<Rightarrow> None | Some s1 \<Rightarrow>
      case mLit ''['' (mSpaces0 s1) of None \<Rightarrow> None | Some s2 \<Rightarrow>
      case mDigits1 (mSpaces0 s2) of None \<Rightarrow> None | Some (d0, s3) \<Rightarrow>
      case mSpaces1 s3 of None \<Rightarrow> None | Some s4 \<Rightarrow>
      case mDigits1 s4 of None \<Rightarrow> None | Some (d1, s5) \<Rightarrow>
      case mSpaces1 s5 of None \<Rightarrow> None | Some s6 \<Rightarrow>
      case mDigits1 s6 of None \<Rightarrow> None | Some (d2, s7) \<Rightarrow>
      case mLit '']'' (mSpaces0 s7) of None \<Rightarrow> None | Some s8 \<Rightarrow>
        Some (natOfDigits d0, natOfDigits d1, natOfDigits d2))"

definition readWArray :: "string \<Rightarrow> (nat \<times> nat \<times> nat) result" where
  "readWArray dictString =
     (case reSearch reWArray dictString of None \<Rightarrow> Inl (Error ''W array not found'')
      | Some w \<Rightarrow> Inr w)"

text \<open>
  \<^verbatim>\<open>\/Index\s*\[(.*?)\]\<close>: the text up to the first closing bracket. Without the
  flag \<^verbatim>\<open>s\<close> the dot matches no LF and no CR, so there is no match at a position
  where one of them stands before the bracket.
\<close>

definition reIndexArray :: "string \<Rightarrow> string option" where
  "reIndexArray s =
     (case mLit ''/Index'' s of None \<Rightarrow> None | Some s1 \<Rightarrow>
      case mLit ''['' (mSpaces0 s1) of None \<Rightarrow> None | Some s2 \<Rightarrow>
      case mLit '']'' (dropWhile (\<lambda>c. c \<noteq> CHR '']'' \<and> \<not> isEol c) s2) of None \<Rightarrow> None | Some s3 \<Rightarrow>
        Some (takeWhile (\<lambda>c. c \<noteq> CHR '']'' \<and> \<not> isEol c) s2))"

text \<open>The loop of \<^verbatim>\<open>readIndexArray\<close> that copies the numbers two by two.\<close>

fun indexPairs :: "int list \<Rightarrow> int list" where
  "indexPairs (a # b # rest) = a # b # indexPairs rest"
| "indexPairs nums = []"

definition readIndexArray :: "string \<Rightarrow> nat \<Rightarrow> int list" where
  "readIndexArray dictString sz =
     (case reSearch reIndexArray dictString of None \<Rightarrow> [0, int sz]
      | Some body \<Rightarrow>
          let nums = List.map_filter parseInt (splitSpaces (trim body));
              out = indexPairs nums
          in if out \<noteq> [] then out else [0, int sz])"

text \<open>
  \<^verbatim>\<open>readUIntBE\<close>: \<^verbatim>\<open>n = (n << 8) | (buf[pos + i] || 0)\<close> works on 32-bit integers,
  and \<^verbatim>\<open>n >>> 0\<close> reads the 32 bits without sign.
\<close>

definition readUIntBE :: "string \<Rightarrow> nat \<Rightarrow> nat \<Rightarrow> nat" where
  "readUIntBE buf pos len =
     (if len = 0 then 0
      else unat (foldl (\<lambda>(n :: 32 word) i.
                   push_bit 8 n OR of_nat (case byteAt buf (pos + i) of None \<Rightarrow> 0 | Some b \<Rightarrow> b))
                 0 [0..<len]))"

record direct_entry =
  offset :: nat
  generation :: nat  \<comment> \<open>the field \<^verbatim>\<open>gen\<close> of an entry\<close>

record objstm_entry =
  objstm :: nat
  index :: nat

record xmap =
  objToOffset :: "int \<rightharpoonup> direct_entry"
  objToObjStm :: "int \<rightharpoonup> objstm_entry"

text \<open>The body of the inner loop of \<^verbatim>\<open>buildXrefMapFromXrefStream\<close>, for the entry at \<open>p\<close>.\<close>

definition xrefStreamEntry :: "string \<Rightarrow> nat \<Rightarrow> nat \<times> nat \<times> nat \<Rightarrow> int \<Rightarrow> xmap \<Rightarrow> xmap" where
  "xrefStreamEntry data p w objNum xm =
     (case w of (w0, w1, w2) \<Rightarrow>
        let type = readUIntBE data p w0;
            f2 = readUIntBE data (p + w0) w1;
            f3 = readUIntBE data (p + w0 + w1) w2;
            t = (if w0 = 0 then 1 else type)
        in if t = 1 then xm\<lparr>objToOffset := (objToOffset xm)(objNum \<mapsto> \<lparr>offset = f2, generation = f3\<rparr>)\<rparr>
           else if t = 2 then xm\<lparr>objToObjStm := (objToObjStm xm)(objNum \<mapsto> \<lparr>objstm = f2, index = f3\<rparr>)\<rparr>
           else xm)"

text \<open>
  The inner loop, from entry \<open>j\<close> of the subsection with \<open>n\<close> entries to go; the state
  is the position \<open>p\<close> in the data and the two maps.
\<close>

fun xrefStreamEntries ::
  "string \<Rightarrow> nat \<times> nat \<times> nat \<Rightarrow> int \<Rightarrow> nat \<Rightarrow> nat \<Rightarrow> nat \<times> xmap \<Rightarrow> nat \<times> xmap" where
  "xrefStreamEntries data w objStart j 0 st = st"
| "xrefStreamEntries data w objStart j (Suc n) (p, xm) =
     xrefStreamEntries data w objStart (Suc j) n
       (p + fst w + fst (snd w) + snd (snd w), xrefStreamEntry data p w (objStart + int j) xm)"

lemma xrefStreamEntries_code [code]:
  "xrefStreamEntries data w objStart j n st =
     (if n = 0 then st
      else xrefStreamEntries data w objStart (Suc j) (n - 1)
             (fst st + fst w + fst (snd w) + snd (snd w),
              xrefStreamEntry data (fst st) w (objStart + int j) (snd st)))"
  by (cases n; cases st) simp_all

text \<open>The outer loop over the pairs of \<^verbatim>\<open>/Index\<close>.\<close>

fun xrefStreamSubsections ::
  "string \<Rightarrow> nat \<times> nat \<times> nat \<Rightarrow> int list \<Rightarrow> nat \<times> xmap \<Rightarrow> nat \<times> xmap" where
  "xrefStreamSubsections data w (objStart # count # rest) st =
     xrefStreamSubsections data w rest (xrefStreamEntries data w objStart 0 (nat count) st)"
| "xrefStreamSubsections data w idx st = st"

text \<open>
  The data of the stream as \<^verbatim>\<open>buildXrefMapFromXrefStream\<close> decodes it: inflated when
  the dictionary names \<^verbatim>\<open>FlateDecode\<close>, and then through the PNG predictor when
  \<^verbatim>\<open>/DecodeParms\<close> has a predictor of 10 or more.
\<close>

definition xrefStreamData ::
  "(string \<Rightarrow> string option) \<Rightarrow> string \<Rightarrow> string \<Rightarrow> nat \<times> nat \<times> nat \<Rightarrow> string result" where
  "xrefStreamData inflate dictString streamBuffer w =
     (if hasFlateDecode dictString then
        (case inflate streamBuffer of None \<Rightarrow> Inl ZlibError
         | Some data \<Rightarrow>
             (case parseDecodeParms dictString of None \<Rightarrow> Inr data
              | Some dp \<Rightarrow>
                  (case predictor dp of None \<Rightarrow> Inr data
                   | Some pr \<Rightarrow>
                       if pr \<noteq> 0 \<and> 10 \<le> pr then
                         Inr (pngPredictorDecode data
                               (case columns dp of None \<Rightarrow> fst w + fst (snd w) + snd (snd w)
                                | Some c \<Rightarrow> if 0 < c then c else fst w + fst (snd w) + snd (snd w)))
                       else Inr data)))
      else Inr streamBuffer)"

record streamObject =
  dictString :: string
  streamBuffer :: string

definition emptyXmap :: xmap where
  "emptyXmap = \<lparr>objToOffset = Map.empty, objToObjStm = Map.empty\<rparr>"

definition buildXrefMapFromXrefStream :: "(string \<Rightarrow> string option) \<Rightarrow> streamObject \<Rightarrow> xmap result" where
  "buildXrefMapFromXrefStream inflate xrefObj =
     bindR (readSize (dictString xrefObj)) (\<lambda>sz.
     bindR (readWArray (dictString xrefObj)) (\<lambda>w.
       let idx = readIndexArray (dictString xrefObj) sz
       in bindR (xrefStreamData inflate (dictString xrefObj) (streamBuffer xrefObj) w) (\<lambda>data.
            Inr (snd (xrefStreamSubsections data w idx (0, emptyXmap))))))"

subsection \<open>The decoding of a cross-reference stream, in the words of the specification\<close>

text \<open>
  The big-endian value of a list of bytes, the bytes of a field of \<open>len\<close> bytes at
  \<open>pos\<close> (a byte beyond the end of the data reads as 0), the width of an entry, the
  object numbers of the \<^verbatim>\<open>/Index\<close> subsections in their order, and the decoding of
  the entries for a list of object numbers, entry \<open>k\<close> standing at \<open>k\<close> times the
  width. They state what \<open>buildXrefMapFromXrefStream\<close> is compared with.
\<close>

definition beValue :: "nat list \<Rightarrow> nat" where
  "beValue bs = foldl (\<lambda>n b. n * 256 + b) 0 bs"

definition fieldBytes :: "string \<Rightarrow> nat \<Rightarrow> nat \<Rightarrow> nat list" where
  "fieldBytes buf pos len = map (\<lambda>i. case byteAt buf (pos + i) of None \<Rightarrow> 0 | Some b \<Rightarrow> b) [0..<len]"

definition entryWidth :: "nat \<times> nat \<times> nat \<Rightarrow> nat" where
  "entryWidth w = fst w + fst (snd w) + snd (snd w)"

fun indexObjNums :: "int list \<Rightarrow> int list" where
  "indexObjNums (objStart # count # rest) = map (\<lambda>j. objStart + int j) [0..<nat count] @ indexObjNums rest"
| "indexObjNums idx = []"

fun decodeEntries :: "string \<Rightarrow> nat \<times> nat \<times> nat \<Rightarrow> nat \<Rightarrow> int list \<Rightarrow> xmap \<Rightarrow> xmap" where
  "decodeEntries data w k [] xm = xm"
| "decodeEntries data w k (n # ns) xm =
     decodeEntries data w (Suc k) ns (xrefStreamEntry data (k * entryWidth w) w n xm)"

subsection \<open>Classic cross-reference tables\<close>

type_synonym offsets = "int \<rightharpoonup> direct_entry"

text \<open>\<^verbatim>\<open>^(\d{10})\s+(\d{5})\s+([nf])\<close>, tried on a line: the two digit strings and the flag.\<close>

definition reXrefEntry :: "string \<Rightarrow> (string \<times> string \<times> char) option" where
  "reXrefEntry line =
     (case mDigitsN 10 line of None \<Rightarrow> None | Some (d1, s1) \<Rightarrow>
      case mSpaces1 s1 of None \<Rightarrow> None | Some s2 \<Rightarrow>
      case mDigitsN 5 s2 of None \<Rightarrow> None | Some (d2, s3) \<Rightarrow>
      case mSpaces1 s3 of None \<Rightarrow> None | Some s4 \<Rightarrow>
      case s4 of [] \<Rightarrow> None
      | c # cs \<Rightarrow> if c = CHR ''n'' \<or> c = CHR ''f'' then Some (d1, d2, c) else None)"

text \<open>
  \<^verbatim>\<open>findStartXref\<close>. The second search looks in a part of what the first one has
  searched.
\<close>

definition findStartXref :: "string \<Rightarrow> nat option" where
  "findStartXref buffer =
     (let needle = ''startxref'';
          start = length buffer - 2 * 1024 * 1024
      in case lastIndexOf buffer needle (length buffer - 1) of
           None \<Rightarrow> lastIndexOf buffer needle start
         | Some pos \<Rightarrow> Some pos)"

text \<open>
  What the first search of \<^verbatim>\<open>findStartXref\<close> does not find, the second does not
  find either, so the result is that of the first; this is also the equation that
  evaluates it.
\<close>

lemma lastMatch_None:
  "lastMatch needle i lim s acc = None \<Longrightarrow> lim' \<le> lim \<Longrightarrow>
   acc = None \<and> lastMatch needle i lim' s None = None"
proof (induction s arbitrary: i acc)
  case Nil
  then show ?case by simp
next
  case (Cons c cs)
  show ?case
  proof (cases "lim < i")
    case True
    with Cons.prems show ?thesis by simp
  next
    case False
    with Cons.prems have r: "lastMatch needle (Suc i) lim cs (if mLit needle (c # cs) \<noteq> None then Some i else acc) = None"
      by simp
    from Cons.IH [OF r Cons.prems(2)] have a: "(if mLit needle (c # cs) \<noteq> None then Some i else acc) = None"
      and b: "lastMatch needle (Suc i) lim' cs None = None" by simp_all
    from a have "mLit needle (c # cs) = None" and "acc = None" by (simp_all split: if_splits)
    with b show ?thesis by simp
  qed
qed

lemma findStartXref_code [code]:
  "findStartXref buffer = lastIndexOf buffer ''startxref'' (length buffer - 1)"
proof (cases "lastIndexOf buffer ''startxref'' (length buffer - 1)")
  case None
  then have "lastIndexOf buffer ''startxref'' (length buffer - 2 * 1024 * 1024) = None"
    unfolding lastIndexOf_def by (rule lastMatch_None [THEN conjunct2]) simp
  with None show ?thesis by (simp add: findStartXref_def)
next
  case (Some pos)
  then show ?thesis by (simp add: findStartXref_def)
qed

definition parseStartXrefOffset :: "string \<Rightarrow> nat \<Rightarrow> int result" where
  "parseStartXrefOffset buffer startXrefPos =
     (let pos = skipWhitespace buffer (startXrefPos + length ''startxref'')
      in case fst (readNumberAscii buffer pos) of
           None \<Rightarrow> Inl (Error ''startxref offset not found'')
         | Some v \<Rightarrow> Inr v)"

text \<open>
  The common start of the strategies that check the offset: the position of the
  cross-reference section, a position inside the buffer that is not 0.
\<close>

definition checkedXrefOffset :: "string \<Rightarrow> nat result" where
  "checkedXrefOffset buffer =
     (case findStartXref buffer of None \<Rightarrow> Inl (Error ''startxref not found'')
      | Some startXrefPos \<Rightarrow>
          bindR (parseStartXrefOffset buffer startXrefPos) (\<lambda>xrefOffset.
            if xrefOffset \<le> 0 \<or> int (length buffer) \<le> xrefOffset then Inl (Error ''Invalid xref offset'')
            else Inr (nat xrefOffset)))"

definition skipWhitespaceBackwardSafe :: "string \<Rightarrow> nat \<Rightarrow> nat" where
  "skipWhitespaceBackwardSafe buffer pos =
     (if pos \<le> 0 then 0
      else if (case byteAt buffer (pos - 1) of None \<Rightarrow> False | Some prev \<Rightarrow> prev \<in> {0, 9, 10, 12, 13, 32})
           then pos else pos)"

text \<open>
  The statements of \<^verbatim>\<open>parsePageCountViaClassicXref\<close> for one entry line that
  matches: only the flag \<^verbatim>\<open>n\<close> sets the object number in the map.
\<close>

definition classicEntry :: "string \<Rightarrow> offsets \<Rightarrow> int \<Rightarrow> offsets" where
  "classicEntry line objectOffsets objNum =
     (case reXrefEntry line of None \<Rightarrow> objectOffsets
      | Some (d1, d2, flag) \<Rightarrow>
          if flag = CHR ''n'' then objectOffsets(objNum \<mapsto> \<lparr>offset = natOfDigits d1, generation = natOfDigits d2\<rparr>)
          else objectOffsets)"

text \<open>
  The loop over the \<open>count\<close> entries of a subsection, at entry \<open>i\<close> with \<open>n\<close> to go;
  the state is the position and the map. An empty line where an entry is due throws.
\<close>

fun classicEntries :: "string \<Rightarrow> int \<Rightarrow> nat \<Rightarrow> nat \<Rightarrow> nat \<times> offsets \<Rightarrow> (nat \<times> offsets) result" where
  "classicEntries buffer firstObj i 0 st = Inr st"
| "classicEntries buffer firstObj i (Suc n) (pos, objectOffsets) =
     (let line = readLineAscii buffer pos
      in if line = [] then Inl (Error ''Unexpected EOF in xref entries'')
         else classicEntries buffer firstObj (Suc i) n
                (advanceToNextLine buffer pos, classicEntry line objectOffsets (firstObj + int i)))"

lemma classicEntries_code [code]:
  "classicEntries buffer firstObj i n st =
     (if n = 0 then Inr st
      else let line = readLineAscii buffer (fst st)
           in if line = [] then Inl (Error ''Unexpected EOF in xref entries'')
              else classicEntries buffer firstObj (Suc i) (n - 1)
                     (advanceToNextLine buffer (fst st), classicEntry line (snd st) (firstObj + int i)))"
  by (cases n; cases st) (simp_all add: Let_def)

lemma lineAdvance_pos: "s \<noteq> [] \<Longrightarrow> 0 < lineAdvance s"
  by (cases s) (auto split: list.splits)

lemma advanceToNextLine_ge: "pos \<le> advanceToNextLine buffer pos"
  by (simp add: advanceToNextLine_def)

lemma advanceToNextLine_gt: "pos < length buffer \<Longrightarrow> pos < advanceToNextLine buffer pos"
  by (simp add: advanceToNextLine_def lineAdvance_pos)

lemma skipWhitespace_ge: "pos \<le> skipWhitespace buffer pos"
  by (simp add: skipWhitespace_def)

lemma classicEntries_ge:
  "classicEntries buffer firstObj i n (pos, m) = Inr (pos', m') \<Longrightarrow> pos \<le> pos'"
proof (induction n arbitrary: i pos m)
  case 0
  then show ?case by simp
next
  case (Suc n)
  then show ?case
    using advanceToNextLine_ge [of pos buffer]
    by (fastforce simp: Let_def split: if_splits dest: Suc.IH)
qed

text \<open>
  The loop over the subsections, up to the keyword \<^verbatim>\<open>trailer\<close>: the position where
  it stops, and the map.
\<close>

function classicSections :: "string \<Rightarrow> nat \<Rightarrow> offsets \<Rightarrow> (nat \<times> offsets) result" where
  "classicSections buffer pos objectOffsets =
     (if \<not> pos < length buffer then Inr (pos, objectOffsets)
      else if peekKeyword buffer pos ''trailer'' then Inr (pos, objectOffsets)
      else let header = readLineAscii buffer pos
           in if header = [] then Inr (pos, objectOffsets)
              else let parts = splitSpaces (trim header)
                   in if length parts < 2 then Inr (pos, objectOffsets)
                      else (case (parseInt (parts ! 0), parseInt (parts ! 1)) of
                              (Some firstObj, Some count) \<Rightarrow>
                                if count < 0 then Inl (Error ''Invalid xref subsection header'')
                                else (case classicEntries buffer firstObj 0 (nat count)
                                             (advanceToNextLine buffer pos, objectOffsets) of
                                        Inl e \<Rightarrow> Inl e
                                      | Inr (pos', objectOffsets') \<Rightarrow>
                                          classicSections buffer (skipWhitespace buffer pos') objectOffsets')
                            | _ \<Rightarrow> Inl (Error ''Invalid xref subsection header'')))"
  by pat_completeness auto
termination
proof (relation "measure (\<lambda>(buffer, pos, m). length buffer - pos)")
  show "wf (measure (\<lambda>(buffer, pos, m). length buffer - pos))" by simp
next
  fix buffer :: string and pos :: nat and objectOffsets :: offsets
    and header parts x firstObj count r pos' objectOffsets'
  assume lt: "\<not> \<not> pos < length buffer"
    and r: "classicEntries buffer firstObj 0 (nat count) (advanceToNextLine buffer pos, objectOffsets) = Inr r"
           "(pos', objectOffsets') = r"
  from r have "advanceToNextLine buffer pos \<le> pos'"
    using classicEntries_ge [of buffer firstObj 0 "nat count" "advanceToNextLine buffer pos" objectOffsets pos' objectOffsets']
    by simp
  moreover have "pos < advanceToNextLine buffer pos" using lt by (simp add: advanceToNextLine_gt)
  moreover have "pos' \<le> skipWhitespace buffer pos'" by (rule skipWhitespace_ge)
  ultimately have "pos < skipWhitespace buffer pos'" by simp
  then show "((buffer, skipWhitespace buffer pos', objectOffsets'), (buffer, pos, objectOffsets))
      \<in> measure (\<lambda>(buffer, pos, m). length buffer - pos)"
    using lt by simp
qed

declare classicSections.simps [simp del]

definition parsePageCountViaClassicXref :: "string \<Rightarrow> nat result" where
  "parsePageCountViaClassicXref buffer =
     bindR (checkedXrefOffset buffer) (\<lambda>xrefOffset.
       let xrefStart = (if skipWhitespaceBackwardSafe buffer xrefOffset = xrefOffset then xrefOffset else xrefOffset)
       in if readAscii buffer xrefStart 4 \<noteq> ''xref'' then Inl (Error ''Not a classic xref table'')
          else bindR (classicSections buffer (skipWhitespace buffer (xrefStart + 4)) Map.empty) (\<lambda>(pos, objectOffsets).
            if \<not> peekKeyword buffer pos ''trailer'' then Inl (Error ''trailer not found'')
            else let pos2 = skipWhitespace buffer (pos + length ''trailer'')
                 in if \<not> startsDict buffer pos2 then Inl (Error ''trailer dict not found'')
                    else bindR (readDictString buffer pos2) (\<lambda>(dictStr, endPos).
                      case parseIndirectRefFromDict dictStr ''Root'' of
                        None \<Rightarrow> Inl (Error ''Root not found in trailer'')
                      | Some rootRef \<Rightarrow>
                      case objectOffsets (int (obj rootRef)) of
                        None \<Rightarrow> Inl (Error ''Root offset not found in xref'')
                      | Some rootEntry \<Rightarrow>
                      bindR (readIndirectObject buffer (offset rootEntry)) (\<lambda>rootDict.
                      case parseIndirectRefFromDict rootDict ''Pages'' of
                        None \<Rightarrow> Inl (Error ''Pages ref not found in Catalog'')
                      | Some pagesRef \<Rightarrow>
                      case objectOffsets (int (obj pagesRef)) of
                        None \<Rightarrow> Inl (Error ''Pages offset not found in xref'')
                      | Some pagesEntry \<Rightarrow>
                      bindR (readIndirectObject buffer (offset pagesEntry)) (\<lambda>pagesDict.
                      if \<not> hasType ''Pages'' pagesDict then Inl (Error ''Target object is not /Type /Pages'')
                      else case parseIntFromDict pagesDict ''Count'' of
                             None \<Rightarrow> Inl (Error ''Count not found or invalid'')
                           | Some count \<Rightarrow>
                               if count \<le> 0 then Inl (Error ''Count not found or invalid'') else Inr count)))))"

subsection \<open>The chain of \<^verbatim>\<open>/Prev\<close> of classic tables\<close>

text \<open>
  The statements of \<^verbatim>\<open>buildClassicXrefOffsetsFollowingPrevChain\<close> for one entry line:
  a line with the flag \<^verbatim>\<open>n\<close> sets the object number unless the map has it. The
  object number is \<open>None\<close> when the first number of the subsection header is
  \<^verbatim>\<open>NaN\<close>, which this function does not refuse: the entry then goes under the key
  \<^verbatim>\<open>NaN\<close>, which is the number of no object.
\<close>

definition chainEntry :: "string \<Rightarrow> offsets \<Rightarrow> int option \<Rightarrow> offsets" where
  "chainEntry line objectOffsets objNum =
     (case reXrefEntry line of None \<Rightarrow> objectOffsets
      | Some (d1, d2, flag) \<Rightarrow>
          if flag = CHR ''n'' then
            (case objNum of None \<Rightarrow> objectOffsets
             | Some k \<Rightarrow>
                 if objectOffsets k \<noteq> None then objectOffsets
                 else objectOffsets(k \<mapsto> \<lparr>offset = natOfDigits d1, generation = natOfDigits d2\<rparr>))
          else objectOffsets)"

fun chainEntries :: "string \<Rightarrow> int option \<Rightarrow> nat \<Rightarrow> nat \<Rightarrow> nat \<times> offsets \<Rightarrow> nat \<times> offsets" where
  "chainEntries buffer firstObj i 0 st = st"
| "chainEntries buffer firstObj i (Suc n) (pos, objectOffsets) =
     chainEntries buffer firstObj (Suc i) n
       (advanceToNextLine buffer pos,
        chainEntry (readLineAscii buffer pos) objectOffsets (map_option (\<lambda>f. f + int i) firstObj))"

lemma chainEntries_code [code]:
  "chainEntries buffer firstObj i n st =
     (if n = 0 then st
      else chainEntries buffer firstObj (Suc i) (n - 1)
             (advanceToNextLine buffer (fst st),
              chainEntry (readLineAscii buffer (fst st)) (snd st) (map_option (\<lambda>f. f + int i) firstObj)))"
  by (cases n; cases st) simp_all

lemma chainEntries_ge: "pos \<le> fst (chainEntries buffer firstObj i n (pos, m))"
proof (induction n arbitrary: i pos m)
  case 0
  then show ?case by simp
next
  case (Suc n)
  have "advanceToNextLine buffer pos
        \<le> fst (chainEntries buffer firstObj (Suc i) n
                 (advanceToNextLine buffer pos,
                  chainEntry (readLineAscii buffer pos) m (map_option (\<lambda>f. f + int i) firstObj)))"
    by (rule Suc.IH)
  then show ?case using advanceToNextLine_ge [of pos buffer] by simp
qed

text \<open>
  The loop over the subsections. A count that is \<^verbatim>\<open>NaN\<close> or negative gives no
  entry: the condition \<^verbatim>\<open>i < count\<close> fails at once.
\<close>

function chainSections :: "string \<Rightarrow> nat \<Rightarrow> offsets \<Rightarrow> nat \<times> offsets" where
  "chainSections buffer pos objectOffsets =
     (if \<not> pos < length buffer then (pos, objectOffsets)
      else if peekKeyword buffer pos ''trailer'' then (pos, objectOffsets)
      else let header = readLineAscii buffer pos
           in if header = [] then (pos, objectOffsets)
              else let parts = splitSpaces (trim header)
                   in if length parts < 2 then (pos, objectOffsets)
                      else let firstObj = parseInt (parts ! 0);
                               count = parseInt (parts ! 1);
                               st = chainEntries buffer firstObj 0 (case count of None \<Rightarrow> 0 | Some c \<Rightarrow> nat c)
                                      (advanceToNextLine buffer pos, objectOffsets)
                           in chainSections buffer (skipWhitespace buffer (fst st)) (snd st))"
  by pat_completeness auto
termination
proof (relation "measure (\<lambda>(buffer, pos, m). length buffer - pos)")
  show "wf (measure (\<lambda>(buffer, pos, m). length buffer - pos))" by simp
next
  fix buffer :: string and pos :: nat and objectOffsets :: offsets
    and header parts firstObj count st
  assume lt: "\<not> \<not> pos < length buffer"
    and st: "st = chainEntries buffer firstObj 0 (case count of None \<Rightarrow> 0 | Some c \<Rightarrow> nat c)
                    (advanceToNextLine buffer pos, objectOffsets)"
  have "advanceToNextLine buffer pos \<le> fst st"
    unfolding st by (rule chainEntries_ge)
  moreover have "pos < advanceToNextLine buffer pos" using lt by (simp add: advanceToNextLine_gt)
  moreover have "fst st \<le> skipWhitespace buffer (fst st)" by (rule skipWhitespace_ge)
  ultimately have "pos < skipWhitespace buffer (fst st)" by simp
  then show "((buffer, skipWhitespace buffer (fst st), snd st), (buffer, pos, objectOffsets))
      \<in> measure (\<lambda>(buffer, pos, m). length buffer - pos)"
    using lt by simp
qed

declare chainSections.simps [simp del]

text \<open>
  The loop \<^verbatim>\<open>while (offset > 0 && hops < 10)\<close>. Its state is the map, the trailer
  dictionary kept (empty before the first), the offset of the section to read and the
  number of hops; the result is the state where the loop ends.
\<close>

function prevChain :: "string \<Rightarrow> offsets \<times> string \<times> nat \<times> nat \<Rightarrow> offsets \<times> string \<times> nat \<times> nat" where
  "prevChain buffer (objectOffsets, trailerDictString, offs, hops) =
     (if \<not> (0 < offs \<and> hops < 10) then (objectOffsets, trailerDictString, offs, hops)
      else if readAscii buffer offs 4 \<noteq> ''xref'' then (objectOffsets, trailerDictString, offs, hops)
      else let st = chainSections buffer (skipWhitespace buffer (offs + 4)) objectOffsets;
               pos = fst st;
               objectOffsets' = snd st
           in if \<not> peekKeyword buffer pos ''trailer'' then (objectOffsets', trailerDictString, offs, hops)
              else let pos2 = skipWhitespace buffer (pos + length ''trailer'')
                   in if \<not> startsDict buffer pos2 then (objectOffsets', trailerDictString, offs, hops)
                      else let dictStr = fst (dictStringAt buffer pos2);
                               trailerDictString' = (if trailerDictString \<noteq> [] then trailerDictString else dictStr)
                           in case parseIntFromDict dictStr ''Prev'' of
                                None \<Rightarrow> (objectOffsets', trailerDictString', offs, hops)
                              | Some prev \<Rightarrow>
                                  if prev \<le> 0 \<or> length buffer \<le> prev
                                  then (objectOffsets', trailerDictString', offs, hops)
                                  else prevChain buffer (objectOffsets', trailerDictString', prev, hops + 1))"
  by pat_completeness auto
termination
  by (relation "measure (\<lambda>(buffer, m, t, offs, hops). 10 - hops)") auto

declare prevChain.simps [simp del]

text \<open>The result is the pair of \<^verbatim>\<open>objectOffsets\<close> and \<^verbatim>\<open>latestTrailerDict\<close>.\<close>

definition buildClassicXrefOffsetsFollowingPrevChain :: "string \<Rightarrow> nat \<Rightarrow> (offsets \<times> string) result" where
  "buildClassicXrefOffsetsFollowingPrevChain buffer startOffset =
     (case prevChain buffer (Map.empty, [], startOffset, 0) of
        (objectOffsets, trailerDictString, offs, hops) \<Rightarrow>
          if trailerDictString = [] then Inl (Error ''No trailer found'')
          else Inr (objectOffsets, trailerDictString))"

subsection \<open>Stream objects and object streams\<close>

text \<open>The loop that steps over spaces, CR and LF after the keyword \<^verbatim>\<open>stream\<close>.\<close>

definition isStreamGap :: "char \<Rightarrow> bool" where
  "isStreamGap c = (byte c = 0x20 \<or> byte c = 0x0d \<or> byte c = 0x0a)"

definition skipStreamGap :: "string \<Rightarrow> nat \<Rightarrow> nat" where
  "skipStreamGap buffer dataStart = dataStart + length (takeWhile isStreamGap (drop dataStart buffer))"

definition readStreamObject :: "string \<Rightarrow> nat \<Rightarrow> streamObject result" where
  "readStreamObject buffer offs =
     (let headerLine = trim (readLineAscii buffer offs)
      in if \<not> reObjHeader headerLine then Inl (Error ''Invalid object header'')
         else let pos = skipWhitespace buffer (advanceToNextLine buffer offs)
              in if \<not> startsDict buffer pos then Inl (Error ''Object dictionary not found'')
                 else bindR (readDictString buffer pos) (\<lambda>(dictStr, endPos).
                   case indexOf buffer ''stream'' endPos of
                     None \<Rightarrow> Inl (Error ''stream keyword not found'')
                   | Some idx \<Rightarrow>
                       let dataStart = skipStreamGap buffer (idx + length ''stream'')
                       in case indexOf buffer ''endstream'' dataStart of
                            None \<Rightarrow> Inl (Error ''endstream not found'')
                          | Some endIdx \<Rightarrow>
                              Inr \<lparr>dictString = dictStr, streamBuffer = slice buffer dataStart endIdx\<rparr>))"

text \<open>
  \<^verbatim>\<open>buffer.slice(start, end)\<close> with indices that can be \<^verbatim>\<open>NaN\<close> (\<open>None\<close>) or
  negative: \<^verbatim>\<open>NaN\<close> reads as 0, a negative index counts from the end, and both are cut
  to the range of the buffer.
\<close>

definition sliceIndex :: "nat \<Rightarrow> int option \<Rightarrow> nat" where
  "sliceIndex len x =
     (case x of None \<Rightarrow> 0 | Some i \<Rightarrow> if i < 0 then nat (int len + i) else min (nat i) len)"

definition bufSlice :: "string \<Rightarrow> int option \<Rightarrow> int option \<Rightarrow> string" where
  "bufSlice b start end =
     (let s = sliceIndex (length b) start; e = sliceIndex (length b) end
      in take (e - s) (drop s b))"

text \<open>
  The header of an object stream: the numbers, each \<^verbatim>\<open>parseInt\<close> of a piece, and the
  loop that pairs them as \<^verbatim>\<open>{obj, off}\<close>.
\<close>

fun pairUp :: "'a list \<Rightarrow> ('a \<times> 'a) list" where
  "pairUp (a # b # rest) = (a, b) # pairUp rest"
| "pairUp nums = []"

definition objStmPairs :: "string \<Rightarrow> (int option \<times> int option) list" where
  "objStmPairs headerPart = pairUp (map parseInt (splitSpaces (trim headerPart)))"

text \<open>
  The bytes of the embedded object \<open>idx\<close>: from \<open>First\<close> plus its offset to that of the
  next pair, or to the end of the inflated data for the last pair. \<open>None\<close> when the
  pairs have no entry \<open>idx\<close>.
\<close>

definition objStmSlice :: "string \<Rightarrow> nat \<Rightarrow> nat \<Rightarrow> string option" where
  "objStmSlice inflated firstVal idx =
     (let pairs = objStmPairs (slice inflated 0 firstVal)
      in if \<not> idx < length pairs then None
         else let start = map_option (\<lambda>off. int firstVal + off) (snd (pairs ! idx));
                  nextOff = (if idx + 1 < length pairs
                             then map_option (\<lambda>off. int firstVal + off) (snd (pairs ! (idx + 1)))
                             else Some (int (length inflated)))
              in Some (bufSlice inflated start nextOff))"

text \<open>The generation passed to \<^verbatim>\<open>getObjectDictViaXrefMap\<close> is not read.\<close>

definition getObjectDictViaXrefMap ::
  "(string \<Rightarrow> string option) \<Rightarrow> string \<Rightarrow> xmap \<Rightarrow> nat \<Rightarrow> string result" where
  "getObjectDictViaXrefMap inflate buffer xm objNum =
     (case objToOffset xm (int objNum) of
        Some off \<Rightarrow> readIndirectObject buffer (offset off)
      | None \<Rightarrow>
     (case objToObjStm xm (int objNum) of
        None \<Rightarrow> Inl (Error ''Object not found in xref map'')
      | Some os \<Rightarrow>
     (case objToOffset xm (int (objstm os)) of
        None \<Rightarrow> Inl (Error ''Object stream location not found'')
      | Some osLoc \<Rightarrow>
          bindR (readStreamObject buffer (offset osLoc)) (\<lambda>osObj.
            if \<not> hasType ''ObjStm'' (dictString osObj) then Inl (Error ''Not an ObjStm'')
            else case (parseIntFromDict (dictString osObj) ''N'', parseIntFromDict (dictString osObj) ''First'') of
                   (Some nVal, Some firstVal) \<Rightarrow>
                     (case inflate (streamBuffer osObj) of
                        None \<Rightarrow> Inl (Error ''Failed to inflate ObjStm'')
                      | Some inflated \<Rightarrow>
                          (case objStmSlice inflated firstVal (index os) of
                             None \<Rightarrow> Inl (Error ''ObjStm index out of range'')
                           | Some b \<Rightarrow>
                               (case indexOf b ''<<'' 0 of
                                  None \<Rightarrow> Inl (Error ''Dict not found in embedded object'')
                                | Some dictStart \<Rightarrow>
                                    bindR (readDictString b dictStart) (\<lambda>(dictStr, endPos). Inr dictStr))))
                 | _ \<Rightarrow> Inl (Error ''ObjStm N/First missing'')))))"

text \<open>\<^verbatim>\<open>readArrayString\<close>; \<open>arrayScan\<close> is its loop, as \<open>dictScan\<close> above.\<close>

fun arrayScan :: "int \<Rightarrow> string \<Rightarrow> nat" where
  "arrayScan depth [] = 0"
| "arrayScan depth (c # cs) =
     (if c = CHR ''['' then Suc (arrayScan (depth + 1) cs)
      else if c = CHR '']'' then (if depth - 1 = 0 then 1 else Suc (arrayScan (depth - 1) cs))
      else Suc (arrayScan depth cs))"

definition readArrayString :: "string \<Rightarrow> nat \<Rightarrow> (string \<times> nat) result" where
  "readArrayString buffer pos =
     (if byteAt buffer pos \<noteq> Some 0x5b then Inl (Error ''Expected ['')
      else let p = pos + arrayScan 0 (drop pos buffer) in Inr (slice buffer pos p, p))"

definition readAnyObjectContent :: "string \<Rightarrow> nat \<Rightarrow> string result" where
  "readAnyObjectContent buffer offs =
     (let headerLine = trim (readLineAscii buffer offs)
      in if \<not> reObjHeader headerLine then Inl (Error ''Invalid object header'')
         else let pos = skipWhitespace buffer (advanceToNextLine buffer offs)
              in if startsDict buffer pos then
                   bindR (readDictString buffer pos) (\<lambda>(dictStr, endPos). Inr dictStr)
                 else if byteAt buffer pos = Some 0x5b then
                   bindR (readArrayString buffer pos) (\<lambda>(arrayString, endPos). Inr (''['' @ arrayString))
                 else Inr (slice buffer pos
                            (case indexOf buffer ''endobj'' pos of
                               None \<Rightarrow> min (length buffer) (pos + 4096)
                             | Some endIdx \<Rightarrow> if 0 < endIdx then endIdx else min (length buffer) (pos + 4096))))"

definition getArrayContentViaOffsets :: "string \<Rightarrow> offsets \<Rightarrow> nat \<Rightarrow> string result" where
  "getArrayContentViaOffsets buffer objOffsets objNum =
     (case objOffsets (int objNum) of None \<Rightarrow> Inl (Error ''Array object not found'')
      | Some entry \<Rightarrow> readAnyObjectContent buffer (offset entry))"

text \<open>
  \<^verbatim>\<open>getObjectContentViaXrefMap\<close>. A missing \<^verbatim>\<open>/First\<close> is \<^verbatim>\<open>null\<close>, which the
  source reads as 0 both in \<^verbatim>\<open>txt.slice(0, null)\<close> and in the sums.
\<close>

definition getObjectContentViaXrefMap ::
  "(string \<Rightarrow> string option) \<Rightarrow> string \<Rightarrow> xmap \<Rightarrow> nat \<Rightarrow> string result" where
  "getObjectContentViaXrefMap inflate buffer xm objNum =
     (case objToOffset xm (int objNum) of
        Some off \<Rightarrow> readAnyObjectContent buffer (offset off)
      | None \<Rightarrow>
     (case objToObjStm xm (int objNum) of
        None \<Rightarrow> Inl (Error ''Object not found in xref map'')
      | Some os \<Rightarrow>
     (case objToOffset xm (int (objstm os)) of
        None \<Rightarrow> Inl (Error ''Object stream location not found'')
      | Some osLoc \<Rightarrow>
          bindR (readStreamObject buffer (offset osLoc)) (\<lambda>osObj.
            case inflate (streamBuffer osObj) of
              None \<Rightarrow> Inl (Error ''Failed to inflate ObjStm'')
            | Some inflated \<Rightarrow>
                let firstVal = (case parseIntFromDict (dictString osObj) ''First'' of None \<Rightarrow> 0 | Some f \<Rightarrow> f)
                in case objStmSlice inflated firstVal (index os) of
                     None \<Rightarrow> Inl (Error ''ObjStm index out of range'')
                   | Some b \<Rightarrow> Inr b))))"

subsection \<open>The kids of a node\<close>

text \<open>\<^verbatim>\<open>\/Kids\s*\[(.*?)\]\<close> with the flag \<^verbatim>\<open>s\<close>: the text up to the first closing bracket.\<close>

definition reKidsArray :: "string \<Rightarrow> string option" where
  "reKidsArray s =
     (case mLit ''/Kids'' s of None \<Rightarrow> None | Some s1 \<Rightarrow>
      case mLit ''['' (mSpaces0 s1) of None \<Rightarrow> None | Some s2 \<Rightarrow>
      case mLit '']'' (dropWhile (\<lambda>c. c \<noteq> CHR '']'') s2) of None \<Rightarrow> None | Some s3 \<Rightarrow>
        Some (takeWhile (\<lambda>c. c \<noteq> CHR '']'') s2))"

text \<open>\<^verbatim>\<open>(\d+)\s+(\d+)\s+R\<close>: the reference and the length of the match.\<close>

definition reRef :: "string \<Rightarrow> (ref \<times> nat) option" where
  "reRef s =
     (case mDigits1 s of None \<Rightarrow> None | Some (d1, s1) \<Rightarrow>
      case mSpaces1 s1 of None \<Rightarrow> None | Some s2 \<Rightarrow>
      case mDigits1 s2 of None \<Rightarrow> None | Some (d2, s3) \<Rightarrow>
      case mSpaces1 s3 of None \<Rightarrow> None | Some s4 \<Rightarrow>
      case mLit ''R'' s4 of None \<Rightarrow> None | Some s5 \<Rightarrow>
        Some (\<lparr>obj = natOfDigits d1, gen = natOfDigits d2\<rparr>, length s - length s5))"

definition refsIn :: "string \<Rightarrow> ref list" where
  "refsIn t = map snd (reExecAll reRef 0 t)"

definition parseKidsArray :: "string \<Rightarrow> ref list" where
  "parseKidsArray dict = (case reSearch reKidsArray dict of None \<Rightarrow> [] | Some t \<Rightarrow> refsIn t)"

definition parseKidsArrayFromArrayString :: "string \<Rightarrow> ref list" where
  "parseKidsArrayFromArrayString arrayString = (if arrayString = [] then [] else refsIn arrayString)"

subsection \<open>The traversal of the page tree\<close>

text \<open>
  The two traversals are recursive with no bound of their own. A JavaScript engine
  runs them on a call stack of some finite capacity and throws a \<^verbatim>\<open>RangeError\<close>
  when a call does not fit; their first argument here is the number of calls that
  still fit, and the result with none left is \<open>Inl RangeError\<close>. What a traversal
  returns on a stack that is large enough is its result for every larger stack.
\<close>

text \<open>
  \<^verbatim>\<open>Number.isInteger\<close> of the number that \<^verbatim>\<open>parseInt\<close> gives for the digits of \<open>n\<close>:
  it fails where that number is \<^verbatim>\<open>Infinity\<close>, which is where \<open>n\<close> rounds to \<open>2 ^ 1024\<close>.
\<close>

definition isIntegerJs :: "nat \<Rightarrow> bool" where
  "isIntegerJs n = (n < 2 ^ 1024 - 2 ^ 970)"

lemma isIntegerJs_code [code]:
  "isIntegerJs n = (int n < 179769313486231580793728971405303415079934132710037826936173778980444968292764750946649017977587207096330286416692887910946555547851940402630657488671505820681908902000708383676273854845817711531764475730270069855571366959622842914819860834936475292719074168444365510704342711559699508093042880177904174497792)"
proof -
  have "isIntegerJs n = (int n < int (2 ^ 1024 - 2 ^ 970))"
    unfolding isIntegerJs_def by (simp only: of_nat_less_iff)
  also have "int (2 ^ 1024 - 2 ^ 970) = 179769313486231580793728971405303415079934132710037826936173778980444968292764750946649017977587207096330286416692887910946555547851940402630657488671505820681908902000708383676273854845817711531764475730270069855571366959622842914819860834936475292719074168444365510704342711559699508093042880177904174497792"
    by simp
  finally show ?thesis .
qed

text \<open>
  \<^verbatim>\<open>Number.isInteger(cnt) && cnt > 0 ? cnt : 0\<close>, where \<open>None\<close> is \<^verbatim>\<open>NaN\<close>. The count kept
  is the natural number; the source keeps its double, the same number below \<open>2 ^ 53\<close>.
\<close>

definition cntOrZero :: "nat option \<Rightarrow> nat" where
  "cntOrZero cnt = (case cnt of None \<Rightarrow> 0 | Some c \<Rightarrow> if isIntegerJs c \<and> 0 < c then c else 0)"

text \<open>
  The loop \<^verbatim>\<open>for (const k of kids)\<close> of \<^verbatim>\<open>traversePagesNodeMap\<close>; \<open>recur\<close> is the
  recursive call and \<open>acc\<close> the variable \<^verbatim>\<open>sum\<close>. A kid that the map does not have is
  passed over; a kid that cannot be read ends the loop with its exception.
\<close>

fun kidsLoopMap :: "(ref \<Rightarrow> nat result) \<Rightarrow> string \<Rightarrow> offsets \<Rightarrow> ref list \<Rightarrow> nat \<Rightarrow> nat result" where
  "kidsLoopMap recur buffer objOffsets [] acc = Inr acc"
| "kidsLoopMap recur buffer objOffsets (k # ks) acc =
     (case objOffsets (int (obj k)) of
        None \<Rightarrow> kidsLoopMap recur buffer objOffsets ks acc
      | Some childEntry \<Rightarrow>
          bindR (readIndirectObject buffer (offset childEntry)) (\<lambda>cdict.
            if hasType ''Page'' cdict then kidsLoopMap recur buffer objOffsets ks (acc + 1)
            else if hasType ''Pages'' cdict then
              bindR (recur \<lparr>obj = obj k, gen = gen k\<rparr>) (\<lambda>n. kidsLoopMap recur buffer objOffsets ks (acc + n))
            else kidsLoopMap recur buffer objOffsets ks acc))"

text \<open>
  The kids of a \<^verbatim>\<open>/Pages\<close> dictionary: the inline array, and when that gives none,
  the array object that \<^verbatim>\<open>/Kids\<close> refers to.
\<close>

definition kidsOfMap :: "string \<Rightarrow> offsets \<Rightarrow> string \<Rightarrow> ref list result" where
  "kidsOfMap buffer objOffsets dict =
     (let kids = parseKidsArray dict
      in if kids \<noteq> [] then Inr kids
         else case parseIndirectRefFromDict dict ''Kids'' of
                None \<Rightarrow> Inr kids
              | Some kidsRef \<Rightarrow>
                  bindR (getArrayContentViaOffsets buffer objOffsets (obj kidsRef)) (\<lambda>arrStr.
                    Inr (parseKidsArrayFromArrayString arrStr)))"

fun traversePagesNodeMap :: "nat \<Rightarrow> string \<Rightarrow> offsets \<Rightarrow> ref \<Rightarrow> nat result" where
  "traversePagesNodeMap 0 buffer objOffsets nodeRef = Inl RangeError"
| "traversePagesNodeMap (Suc stack) buffer objOffsets nodeRef =
     (case objOffsets (int (obj nodeRef)) of
        None \<Rightarrow> Inl (Error ''Node not found'')
      | Some entry \<Rightarrow>
          bindR (readIndirectObject buffer (offset entry)) (\<lambda>dict.
            if hasType ''Page'' dict then Inr 1
            else if \<not> hasType ''Pages'' dict then Inr 0
            else let cnt = parseIntFromDict dict ''Count''
                 in bindR (kidsOfMap buffer objOffsets dict) (\<lambda>kids.
                      if kids = [] then Inr (cntOrZero cnt)
                      else bindR (kidsLoopMap (traversePagesNodeMap stack buffer objOffsets) buffer objOffsets kids 0)
                             (\<lambda>acc. Inr (if acc \<noteq> 0 then acc else cntOrZero cnt)))))"

definition traversePageTreeWithMap :: "nat \<Rightarrow> string \<Rightarrow> offsets \<Rightarrow> ref \<Rightarrow> nat result" where
  "traversePageTreeWithMap stack buffer objOffsets rootRef =
     (case objOffsets (int (obj rootRef)) of
        None \<Rightarrow> Inl (Error ''Catalog not found'')
      | Some catalogEntry \<Rightarrow>
          bindR (readIndirectObject buffer (offset catalogEntry)) (\<lambda>catalogDict.
            case parseIndirectRefFromDict catalogDict ''Pages'' of
              None \<Rightarrow> Inl (Error ''Pages not found'')
            | Some pagesRef \<Rightarrow> traversePagesNodeMap stack buffer objOffsets pagesRef))"

definition countPagesViaClassicTraversal :: "nat \<Rightarrow> string \<Rightarrow> nat result" where
  "countPagesViaClassicTraversal stack buffer =
     bindR (checkedXrefOffset buffer) (\<lambda>xrefOffset.
     bindR (buildClassicXrefOffsetsFollowingPrevChain buffer xrefOffset) (\<lambda>(objectOffsets, latestTrailerDict).
       case parseIndirectRefFromDict latestTrailerDict ''Root'' of
         None \<Rightarrow> Inl (Error ''Root not found'')
       | Some rootRef \<Rightarrow> traversePageTreeWithMap stack buffer objectOffsets rootRef))"

text \<open>The same for \<^verbatim>\<open>traversePagesNodeXref\<close>, where a kid that the maps do not have throws.\<close>

fun kidsLoopXref ::
  "(ref \<Rightarrow> nat result) \<Rightarrow> (string \<Rightarrow> string option) \<Rightarrow> string \<Rightarrow> xmap \<Rightarrow> ref list \<Rightarrow> nat \<Rightarrow> nat result" where
  "kidsLoopXref recur inflate buffer xm [] acc = Inr acc"
| "kidsLoopXref recur inflate buffer xm (k # ks) acc =
     bindR (getObjectDictViaXrefMap inflate buffer xm (obj k)) (\<lambda>cdict.
       if hasType ''Page'' cdict then kidsLoopXref recur inflate buffer xm ks (acc + 1)
       else if hasType ''Pages'' cdict then
         bindR (recur k) (\<lambda>n. kidsLoopXref recur inflate buffer xm ks (acc + n))
       else kidsLoopXref recur inflate buffer xm ks acc)"

definition kidsOfXref :: "(string \<Rightarrow> string option) \<Rightarrow> string \<Rightarrow> xmap \<Rightarrow> string \<Rightarrow> ref list result" where
  "kidsOfXref inflate buffer xm dict =
     (let kids = parseKidsArray dict
      in if kids \<noteq> [] then Inr kids
         else case parseIndirectRefFromDict dict ''Kids'' of
                None \<Rightarrow> Inr kids
              | Some kidsRef \<Rightarrow>
                  bindR (getObjectContentViaXrefMap inflate buffer xm (obj kidsRef)) (\<lambda>arrStr.
                    Inr (parseKidsArrayFromArrayString arrStr)))"

fun traversePagesNodeXref :: "nat \<Rightarrow> (string \<Rightarrow> string option) \<Rightarrow> string \<Rightarrow> xmap \<Rightarrow> ref \<Rightarrow> nat result" where
  "traversePagesNodeXref 0 inflate buffer xm nodeRef = Inl RangeError"
| "traversePagesNodeXref (Suc stack) inflate buffer xm nodeRef =
     bindR (getObjectDictViaXrefMap inflate buffer xm (obj nodeRef)) (\<lambda>dict.
       if hasType ''Page'' dict then Inr 1
       else if \<not> hasType ''Pages'' dict then Inr 0
       else let cnt = parseIntFromDict dict ''Count''
            in bindR (kidsOfXref inflate buffer xm dict) (\<lambda>kids.
                 if kids = [] then Inr (cntOrZero cnt)
                 else bindR (kidsLoopXref (traversePagesNodeXref stack inflate buffer xm) inflate buffer xm kids 0)
                        (\<lambda>acc. Inr (if acc \<noteq> 0 then acc else cntOrZero cnt))))"

definition traversePageTreeWithXrefStream ::
  "nat \<Rightarrow> (string \<Rightarrow> string option) \<Rightarrow> string \<Rightarrow> xmap \<Rightarrow> ref \<Rightarrow> nat result" where
  "traversePageTreeWithXrefStream stack inflate buffer xm rootRef =
     bindR (getObjectDictViaXrefMap inflate buffer xm (obj rootRef)) (\<lambda>catalogDict.
       case parseIndirectRefFromDict catalogDict ''Pages'' of
         None \<Rightarrow> Inl (Error ''Pages not found'')
       | Some pagesRef \<Rightarrow> traversePagesNodeXref stack inflate buffer xm pagesRef)"

subsection \<open>The chain of \<^verbatim>\<open>/Prev\<close> of cross-reference streams\<close>

text \<open>The two loops that merge a map into \<^verbatim>\<open>merged\<close>: a key that \<^verbatim>\<open>merged\<close> has is kept.\<close>

definition mergeFirstWins :: "('k \<rightharpoonup> 'v) \<Rightarrow> ('k \<rightharpoonup> 'v) \<Rightarrow> ('k \<rightharpoonup> 'v)" where
  "mergeFirstWins merged m = (\<lambda>k. case merged k of Some v \<Rightarrow> Some v | None \<Rightarrow> m k)"

text \<open>
  The loop of \<^verbatim>\<open>buildXrefMapFromXrefStreamChain\<close>; its state is \<^verbatim>\<open>merged\<close>, the
  value of \<^verbatim>\<open>/Prev\<close> read last (\<open>None\<close> for \<^verbatim>\<open>null\<close>) and the number of hops.
\<close>

function streamChain ::
  "(string \<Rightarrow> string option) \<Rightarrow> string \<Rightarrow> xmap \<times> nat option \<times> nat \<Rightarrow> (xmap \<times> nat option \<times> nat) result" where
  "streamChain inflate buffer (merged, prev, hops) =
     (case prev of
        None \<Rightarrow> Inr (merged, prev, hops)
      | Some pv \<Rightarrow>
          if \<not> (0 < pv \<and> pv < length buffer \<and> hops < 10) then Inr (merged, prev, hops)
          else if readAscii buffer pv 4 = ''xref'' then
            bindR (buildClassicXrefOffsetsFollowingPrevChain buffer pv) (\<lambda>(objectOffsets, latestTrailerDict).
              Inr (merged\<lparr>objToOffset := mergeFirstWins (objToOffset merged) objectOffsets\<rparr>, prev, hops))
          else
            bindR (readStreamObject buffer pv) (\<lambda>xo.
              if \<not> hasType ''XRef'' (dictString xo) then Inr (merged, prev, hops)
              else bindR (buildXrefMapFromXrefStream inflate xo) (\<lambda>m.
                     streamChain inflate buffer
                       (\<lparr>objToOffset = mergeFirstWins (objToOffset merged) (objToOffset m),
                         objToObjStm = mergeFirstWins (objToObjStm merged) (objToObjStm m)\<rparr>,
                        parseIntFromDict (dictString xo) ''Prev'', hops + 1))))"
  by pat_completeness auto
termination
  by (relation "measure (\<lambda>(inflate, buffer, merged, prev, hops). 10 - hops)") auto

declare streamChain.simps [simp del]

definition buildXrefMapFromXrefStreamChain ::
  "(string \<Rightarrow> string option) \<Rightarrow> string \<Rightarrow> streamObject \<Rightarrow> xmap result" where
  "buildXrefMapFromXrefStreamChain inflate buffer firstXrefObj =
     bindR (buildXrefMapFromXrefStream inflate firstXrefObj) (\<lambda>merged.
     bindR (streamChain inflate buffer (merged, parseIntFromDict (dictString firstXrefObj) ''Prev'', 0))
       (\<lambda>(merged', prev, hops). Inr merged'))"

text \<open>
  \<^verbatim>\<open>countPagesViaXrefStreamTraversal\<close> does not check the offset. A negative offset
  reads as 0: \<^verbatim>\<open>readStreamObject\<close> walks up from it over indices where the buffer
  reads \<^verbatim>\<open>undefined\<close>, and \<^verbatim>\<open>toString\<close> starts at 0.
\<close>

definition countPagesViaXrefStreamTraversal :: "nat \<Rightarrow> (string \<Rightarrow> string option) \<Rightarrow> string \<Rightarrow> nat result" where
  "countPagesViaXrefStreamTraversal stack inflate buffer =
     (case findStartXref buffer of None \<Rightarrow> Inl (Error ''startxref not found'')
      | Some startXrefPos \<Rightarrow>
          bindR (parseStartXrefOffset buffer startXrefPos) (\<lambda>xrefOffset.
          bindR (readStreamObject buffer (nat xrefOffset)) (\<lambda>xrefObj.
            if \<not> hasType ''XRef'' (dictString xrefObj) then Inl (Error ''Not XRef stream'')
            else case parseIndirectRefFromDict (dictString xrefObj) ''Root'' of
                   None \<Rightarrow> Inl (Error ''Root not found in trailer'')
                 | Some rootRef \<Rightarrow>
                     bindR (buildXrefMapFromXrefStreamChain inflate buffer xrefObj) (\<lambda>xm.
                       traversePageTreeWithXrefStream stack inflate buffer xm rootRef))))"

definition parsePageCountViaXrefStream :: "(string \<Rightarrow> string option) \<Rightarrow> string \<Rightarrow> nat result" where
  "parsePageCountViaXrefStream inflate buffer =
     bindR (checkedXrefOffset buffer) (\<lambda>xrefOffset.
     bindR (readStreamObject buffer xrefOffset) (\<lambda>xrefObj.
       if \<not> hasType ''XRef'' (dictString xrefObj) then Inl (Error ''Not an XRef stream'')
       else case parseIndirectRefFromDict (dictString xrefObj) ''Root'' of
              None \<Rightarrow> Inl (Error ''Root not in XRef trailer'')
            | Some rootRef \<Rightarrow>
                bindR (buildXrefMapFromXrefStream inflate xrefObj) (\<lambda>xm.
                bindR (getObjectDictViaXrefMap inflate buffer xm (obj rootRef)) (\<lambda>catalogDict.
                  case parseIndirectRefFromDict catalogDict ''Pages'' of
                    None \<Rightarrow> Inl (Error ''Pages ref not in Catalog'')
                  | Some pagesRef \<Rightarrow>
                      bindR (getObjectDictViaXrefMap inflate buffer xm (obj pagesRef)) (\<lambda>pagesDict.
                        case parseIntFromDict pagesDict ''Count'' of
                          None \<Rightarrow> Inl (Error ''Count not found'')
                        | Some count \<Rightarrow> if count \<le> 0 then Inl (Error ''Count not found'') else Inr count)))))"

subsection \<open>The heuristic scans\<close>

text \<open>
  The window around a match of \<^verbatim>\<open>/Type /Pages\<close> at \<open>idx\<close> and the first
  \<^verbatim>\<open>/Count N\<close> in it: \<^verbatim>\<open>window.match(/\/Count\s+(\d+)/)\<close>.
\<close>

definition windowCount :: "string \<Rightarrow> nat \<Rightarrow> nat option" where
  "windowCount s idx =
     (let windowStart = idx - 1024;
          windowEnd = min (length s) (idx + 50000);
          window = slice s windowStart windowEnd
      in map_option fst (reSearch (reNamedInt ''Count'') window))"

lemma windowCount_code [code]:
  "windowCount s idx =
     (let windowStart = nat (int idx - 1024);
          windowEnd = (if int (length s) \<le> int idx + 50000 then length s else idx + 50000);
          window = slice s windowStart windowEnd
      in map_option fst (reSearch (reNamedInt ''Count'') window))"
proof -
  have "nat (int idx - 1024) = idx - 1024" by simp
  moreover have "(if int (length s) \<le> int idx + 50000 then length s else idx + 50000)
                 = min (length s) (idx + 50000)" by (simp add: min_def)
  ultimately show ?thesis by (simp only: windowCount_def)
qed

text \<open>
  The loop over the matches of \<^verbatim>\<open>/Type /Pages\<close> that keeps the largest count of
  their windows. The source has it in \<^verbatim>\<open>scanMaxPagesCount\<close> for the buffer and in
  \<^verbatim>\<open>scanMaxPagesCountFromObjectStreams\<close> for the inflated text of a stream.
\<close>

definition nearestCountMax :: "string \<Rightarrow> nat" where
  "nearestCountMax s =
     foldl (\<lambda>maxCount (idx, u). case windowCount s idx of
                                   None \<Rightarrow> maxCount
                                 | Some count \<Rightarrow> if maxCount < count then count else maxCount)
       0 (reExecAll (reTypeName ''Pages'') 0 s)"

definition scanMaxPagesCount :: "string \<Rightarrow> nat" where
  "scanMaxPagesCount buffer =
     (let maxCount = nearestCountMax buffer
      in if 0 < maxCount then maxCount
         else foldl (\<lambda>mx (idx, count). if mx < count then count else mx) maxCount
                (reExecAll (reNamedInt ''Count'') 0 buffer))"

text \<open>
  What the two scans of the streams do with the occurrence of \<^verbatim>\<open>stream\<close> at
  \<open>streamIdx\<close>, up to the call of \<^verbatim>\<open>zlib.inflateSync\<close>: the bytes to inflate, or
  \<open>None\<close> when the dictionary before it does not name FlateDecode, no
  \<^verbatim>\<open>endstream\<close> follows, or the stream is empty or longer than 10 MiB.
\<close>

definition flateStreamAt :: "string \<Rightarrow> nat \<Rightarrow> string option" where
  "flateStreamAt buffer streamIdx =
     (let dictStr = (case (lastIndexOf buffer ''<<'' streamIdx, lastIndexOf buffer ''>>'' streamIdx) of
                       (Some dictOpen, Some dictClose) \<Rightarrow>
                          if dictOpen < dictClose then slice buffer dictOpen (dictClose + 2) else []
                     | _ \<Rightarrow> [])
      in if \<not> hasFlateDecode dictStr then None
         else let dataStart = skipStreamGap buffer (streamIdx + length ''stream'')
              in case indexOf buffer ''endstream'' dataStart of
                   None \<Rightarrow> None
                 | Some endStreamIdx \<Rightarrow>
                     let streamBuf = slice buffer dataStart endStreamIdx
                     in if 0 < length streamBuf \<and> length streamBuf \<le> 10 * 1024 * 1024
                        then Some streamBuf else None)"

lemma flateStreamAt_code [code]:
  "flateStreamAt buffer streamIdx =
     (let dictStr = (case (lastIndexOf buffer ''<<'' streamIdx, lastIndexOf buffer ''>>'' streamIdx) of
                       (Some dictOpen, Some dictClose) \<Rightarrow>
                          if dictOpen < dictClose then slice buffer dictOpen (dictClose + 2) else []
                     | _ \<Rightarrow> [])
      in if \<not> hasFlateDecode dictStr then None
         else let dataStart = skipStreamGap buffer (streamIdx + length ''stream'')
              in case indexOf buffer ''endstream'' dataStart of
                   None \<Rightarrow> None
                 | Some endStreamIdx \<Rightarrow>
                     let streamBuf = slice buffer dataStart endStreamIdx
                     in if streamBuf \<noteq> [] \<and> int (length streamBuf) \<le> 10485760
                        then Some streamBuf else None)"
proof -
  have "(0 < length b \<and> length b \<le> 10 * 1024 * 1024) = (b \<noteq> [] \<and> int (length b) \<le> 10485760)"
    for b :: string by auto
  then show ?thesis by (simp only: flateStreamAt_def)
qed

lemma findSub_less: "findSub needle s = Some i \<Longrightarrow> needle \<noteq> [] \<Longrightarrow> i < length s"
  by (induction s arbitrary: i) (auto split: if_splits)

lemma indexOf_bounds:
  "indexOf s needle pos = Some i \<Longrightarrow> needle \<noteq> [] \<Longrightarrow> pos \<le> i \<and> i < length s"
  by (auto simp: indexOf_def dest!: findSub_less)

text \<open>
  The loop of \<^verbatim>\<open>scanMaxPagesCountFromObjectStreams\<close> from position \<open>pos\<close>. An
  exception of \<^verbatim>\<open>zlib.inflateSync\<close> is caught in the loop, which goes on.
\<close>

function scanStreamsLoop :: "(string \<Rightarrow> string option) \<Rightarrow> string \<Rightarrow> nat \<Rightarrow> nat \<Rightarrow> nat" where
  "scanStreamsLoop inflate buffer pos globalMax =
     (case indexOf buffer ''stream'' pos of
        None \<Rightarrow> globalMax
      | Some streamIdx \<Rightarrow>
          (case flateStreamAt buffer streamIdx of
             None \<Rightarrow> scanStreamsLoop inflate buffer (streamIdx + length ''stream'') globalMax
           | Some streamBuf \<Rightarrow>
               (case inflate streamBuf of
                  None \<Rightarrow> scanStreamsLoop inflate buffer (streamIdx + length ''stream'') globalMax
                | Some inflated \<Rightarrow>
                    let localMax = nearestCountMax inflated;
                        globalMax' = (if globalMax < localMax then localMax else globalMax)
                    in if 0 < globalMax' then globalMax'
                       else scanStreamsLoop inflate buffer (streamIdx + length ''stream'') globalMax')))"
  by pat_completeness auto
termination
  by (relation "measure (\<lambda>(inflate, buffer, pos, globalMax). length buffer - pos)")
     (auto dest!: indexOf_bounds)

declare scanStreamsLoop.simps [simp del]

definition scanMaxPagesCountFromObjectStreams :: "(string \<Rightarrow> string option) \<Rightarrow> string \<Rightarrow> nat" where
  "scanMaxPagesCountFromObjectStreams inflate buffer = scanStreamsLoop inflate buffer 0 0"

text \<open>
  \<^verbatim>\<open>scanDeflatedStreamsForPattern\<close> for a global expression given as a matcher; the
  loop from position \<open>pos\<close> with \<open>hits\<close> so far.
\<close>

function deflatedHitsLoop ::
  "(string \<Rightarrow> string option) \<Rightarrow> string \<Rightarrow> (string \<Rightarrow> (unit \<times> nat) option) \<Rightarrow> nat \<Rightarrow> nat \<Rightarrow> nat" where
  "deflatedHitsLoop inflate buffer re pos hits =
     (case indexOf buffer ''stream'' pos of
        None \<Rightarrow> hits
      | Some streamIdx \<Rightarrow>
          (case flateStreamAt buffer streamIdx of
             None \<Rightarrow> deflatedHitsLoop inflate buffer re (streamIdx + length ''stream'') hits
           | Some streamBuf \<Rightarrow>
               (case inflate streamBuf of
                  None \<Rightarrow> deflatedHitsLoop inflate buffer re (streamIdx + length ''stream'') hits
                | Some inflated \<Rightarrow>
                    deflatedHitsLoop inflate buffer re (streamIdx + length ''stream'')
                      (hits + length (reExecAll re 0 inflated)))))"
  by pat_completeness auto
termination
  by (relation "measure (\<lambda>(inflate, buffer, re, pos, hits). length buffer - pos)")
     (auto dest!: indexOf_bounds)

declare deflatedHitsLoop.simps [simp del]

definition scanDeflatedStreamsForPattern ::
  "(string \<Rightarrow> string option) \<Rightarrow> string \<Rightarrow> (string \<Rightarrow> (unit \<times> nat) option) \<Rightarrow> nat" where
  "scanDeflatedStreamsForPattern inflate buffer re = deflatedHitsLoop inflate buffer re 0 0"

definition countPagesByPageObjects :: "(string \<Rightarrow> string option) \<Rightarrow> string \<Rightarrow> nat" where
  "countPagesByPageObjects inflate buffer =
     length (reExecAll (reTypeName ''Page'') 0 buffer)
     + scanDeflatedStreamsForPattern inflate buffer (reTypeName ''Page'')"

subsection \<open>The orchestrator\<close>

text \<open>
  \<^verbatim>\<open>try { const n = ...; if (Number.isInteger(n) && n > 0) ... } catch (_) {}\<close>: the
  number when the strategy returns one that is positive, \<open>None\<close> when it returns 0 or
  throws, whatever it throws.
\<close>

definition tryPositive :: "nat result \<Rightarrow> nat option" where
  "tryPositive r = (case r of Inl e \<Rightarrow> None | Inr n \<Rightarrow> if 0 < n then Some n else None)"

text \<open>
  \<^verbatim>\<open>countPdfPagesSync\<close> for an input that is a buffer, which \<^verbatim>\<open>loadToBufferSync\<close>
  returns as it is. \<open>stack\<close> is the number of calls of a traversal that the call stack
  holds.
\<close>

definition countPdfPagesSync :: "nat \<Rightarrow> (string \<Rightarrow> string option) \<Rightarrow> string \<Rightarrow> nat result" where
  "countPdfPagesSync stack inflate buffer =
     (case tryPositive (countPagesViaXrefStreamTraversal stack inflate buffer) of
        Some n \<Rightarrow> Inr n
      | None \<Rightarrow>
     (case tryPositive (countPagesViaClassicTraversal stack buffer) of
        Some n \<Rightarrow> Inr n
      | None \<Rightarrow>
     (case tryPositive (parsePageCountViaClassicXref buffer) of
        Some n \<Rightarrow> (let approx = countPagesByPageObjects inflate buffer
                   in Inr (if n < approx then approx else n))
      | None \<Rightarrow>
     (case tryPositive (parsePageCountViaXrefStream inflate buffer) of
        Some n \<Rightarrow> (let approx = countPagesByPageObjects inflate buffer
                   in Inr (if n < approx then approx else n))
      | None \<Rightarrow>
     (let count = scanMaxPagesCount buffer
      in if 0 < count then Inr count
         else let count = scanMaxPagesCountFromObjectStreams inflate buffer
              in if 0 < count then Inr count
                 else let count = countPagesByPageObjects inflate buffer
                      in if 0 < count then Inr count
                         else Inl (Error ''PDF page count not found''))))))"

subsection \<open>The waterfall, in the words of the specification\<close>

text \<open>
  The list of the seven strategies in their order, each \<open>Some\<close> of a positive number
  or \<open>None\<close>: the two traversals, the two readings of \<^verbatim>\<open>/Count\<close> with the guard
  of the page-object counter, and the three scans. \<open>firstSome\<close> gives the first
  result of a list that is not \<open>None\<close>.
\<close>

fun firstSome :: "'a option list \<Rightarrow> 'a option" where
  "firstSome [] = None"
| "firstSome (None # xs) = firstSome xs"
| "firstSome (Some x # xs) = Some x"

definition strategies :: "nat \<Rightarrow> (string \<Rightarrow> string option) \<Rightarrow> string \<Rightarrow> nat option list" where
  "strategies stack inflate buffer =
     [tryPositive (countPagesViaXrefStreamTraversal stack inflate buffer),
      tryPositive (countPagesViaClassicTraversal stack buffer),
      map_option (\<lambda>n. max n (countPagesByPageObjects inflate buffer)) (tryPositive (parsePageCountViaClassicXref buffer)),
      map_option (\<lambda>n. max n (countPagesByPageObjects inflate buffer)) (tryPositive (parsePageCountViaXrefStream inflate buffer)),
      tryPositive (Inr (scanMaxPagesCount buffer)),
      tryPositive (Inr (scanMaxPagesCountFromObjectStreams inflate buffer)),
      tryPositive (Inr (countPagesByPageObjects inflate buffer))]"

subsection \<open>Example files\<close>

text \<open>
  A file with a classic table whose pages node has \<^verbatim>\<open>/Count 1\<close> and one kid, object
  3, listed at offset 2 where no object starts, and two page objects that no node refers
  to. The traversals throw on the kid; the reading of \<^verbatim>\<open>/Count\<close> gives 1 and the
  page-object counter 2.
\<close>

definition guard3 :: string where
  "guard3 = ''%PDF\<newline>1 0 obj\<newline><</Pages 2 0 R>>\<newline>2 0 obj\<newline><</Type /Pages /Kids [3 0 R] /Count 1>>\<newline>4 0 obj\<newline><</Type /Page>>\<newline>5 0 obj\<newline><</Type /Page>>\<newline>xref\<newline>0 4\<newline>0000000000 00000 f\<newline>0000000005 00000 n\<newline>0000000030 00000 n\<newline>0000000002 00000 n\<newline>trailer\<newline><</Root 1 0 R>>\<newline>startxref\<newline>126\<newline>''"

text \<open>
  A file with a cross-reference stream for the objects 0 to 2, whose pages node has
  \<^verbatim>\<open>/Count 1\<close> and one kid, object 3, that the stream does not list. The stream
  holds the one byte \<^verbatim>\<open>X\<close>, and \<open>inflate4\<close> stands for an inflate function that
  gives the three entries for it.
\<close>

definition guard4 :: string where
  "guard4 = ''%PDF\<newline>1 0 obj\<newline><</Pages 2 0 R>>\<newline>2 0 obj\<newline><</Type /Pages /Kids [3 0 R] /Count 1>>\<newline>4 0 obj\<newline><</Type /XRef /Size 3 /W [1 1 1] /Root 1 0 R /Filter /FlateDecode>>\<newline>stream\<newline>Xendstream\<newline>startxref\<newline>78\<newline>''"

definition inflate4 :: "string \<Rightarrow> string option" where
  "inflate4 s = (if s = ''X'' then Some [CHR 0x00, CHR 0x00, CHR 0x00, CHR 0x01, CHR 0x05, CHR 0x00, CHR 0x01, CHR 0x1E, CHR 0x00] else None)"

subsection \<open>The scan of the inflated streams, in the words of the specification\<close>

text \<open>
  The occurrences of \<^verbatim>\<open>stream\<close> that the loop visits from \<open>pos\<close>, in buffer order;
  the local maximum of the stream at an occurrence, 0 when there is nothing to inflate
  there, when inflating throws or when the text has no count; and, for a list of
  occurrences, the ones examined up to the first with a positive local maximum,
  together with that maximum (0 when there is none).
\<close>

function streamCandidates :: "string \<Rightarrow> nat \<Rightarrow> nat list" where
  "streamCandidates buffer pos =
     (case indexOf buffer ''stream'' pos of
        None \<Rightarrow> []
      | Some streamIdx \<Rightarrow> streamIdx # streamCandidates buffer (streamIdx + length ''stream''))"
  by pat_completeness auto
termination
  by (relation "measure (\<lambda>(buffer, pos). length buffer - pos)") (auto dest!: indexOf_bounds)

declare streamCandidates.simps [simp del]

definition localMaxAt :: "(string \<Rightarrow> string option) \<Rightarrow> string \<Rightarrow> nat \<Rightarrow> nat" where
  "localMaxAt inflate buffer streamIdx =
     (case flateStreamAt buffer streamIdx of
        None \<Rightarrow> 0
      | Some streamBuf \<Rightarrow> (case inflate streamBuf of None \<Rightarrow> 0 | Some inflated \<Rightarrow> nearestCountMax inflated))"

fun firstProductive :: "(string \<Rightarrow> string option) \<Rightarrow> string \<Rightarrow> nat list \<Rightarrow> nat list \<times> nat" where
  "firstProductive inflate buffer [] = ([], 0)"
| "firstProductive inflate buffer (i # is) =
     (if 0 < localMaxAt inflate buffer i then ([i], localMaxAt inflate buffer i)
      else (case firstProductive inflate buffer is of (examined, r) \<Rightarrow> (i # examined, r)))"

text \<open>
  A buffer with two FlateDecode streams, \<^verbatim>\<open>A\<close> and \<^verbatim>\<open>B\<close>, and two inflate
  functions: for \<open>inflateAB\<close> the first stream holds a pages node with \<^verbatim>\<open>/Count 3\<close>
  and the second one with \<^verbatim>\<open>/Count 9\<close>; \<open>inflateA\<close> throws on the second.
\<close>

definition twoStreams :: string where
  "twoStreams = ''<</Filter /FlateDecode>>stream\<newline>Aendstream <</Filter /FlateDecode>>stream\<newline>Bendstream''"

definition inflateAB :: "string \<Rightarrow> string option" where
  "inflateAB s = (if s = ''A'' then Some ''/Type /Pages /Count 3''
                  else if s = ''B'' then Some ''/Type /Pages /Count 9'' else None)"

definition inflateA :: "string \<Rightarrow> string option" where
  "inflateA s = (if s = ''A'' then Some ''/Type /Pages /Count 3'' else None)"

subsection \<open>The entry of a classic table, in the words of the specification\<close>

text \<open>Ten digits of offset, one space, five digits of generation, one space, and the flag.\<close>

definition fixedWidthEntry :: "string \<Rightarrow> string \<Rightarrow> char \<Rightarrow> string" where
  "fixedWidthEntry ds gs flag = ds @ '' '' @ gs @ '' '' @ [flag]"

definition isDigits :: "nat \<Rightarrow> string \<Rightarrow> bool" where
  "isDigits n ds = (length ds = n \<and> list_all isDigit ds)"

subsection \<open>Example files for the chain of \<^verbatim>\<open>/Prev\<close>\<close>

text \<open>
  \<open>firstTrailer\<close> is the dictionary that \<^verbatim>\<open>buildClassicXrefOffsetsFollowingPrevChain\<close>
  reads in the first turn of its loop: the one after the sections of the table at
  \<open>startOffset\<close>.
\<close>

definition firstTrailer :: "string \<Rightarrow> nat \<Rightarrow> string" where
  "firstTrailer buffer startOffset =
     (let pos = fst (chainSections buffer (skipWhitespace buffer (startOffset + 4)) Map.empty)
      in fst (dictStringAt buffer (skipWhitespace buffer (pos + length ''trailer''))))"

text \<open>A table at offset 1 whose trailer names offset 1 as the earlier table.\<close>

definition cyclicPrev :: string where
  "cyclicPrev = ''%xref\<newline>0 2\<newline>0000000000 65535 f \<newline>0000000050 00000 n \<newline>trailer\<newline><< /Size 2 /Prev 1 >>\<newline>''"

definition seenOffsets :: offsets where
  "seenOffsets = [1 \<mapsto> \<lparr>offset = 9, generation = 0\<rparr>]"

definition seenXmap :: xmap where
  "seenXmap = \<lparr>objToOffset = Map.empty, objToObjStm = [1 \<mapsto> \<lparr>objstm = 7, index = 0\<rparr>]\<rparr>"

subsection \<open>Example page trees\<close>

text \<open>
  What one turn of the loop over the kids of \<^verbatim>\<open>traversePagesNodeMap\<close> adds to
  \<^verbatim>\<open>sum\<close>: nothing for a kid that the map does not have, 1 for a page, the result of
  the recursive call for a pages node, nothing for any other object; a kid that cannot be
  read throws.
\<close>

definition kidValueMap :: "(ref \<Rightarrow> nat result) \<Rightarrow> string \<Rightarrow> offsets \<Rightarrow> ref \<Rightarrow> nat result" where
  "kidValueMap recur buffer objOffsets k =
     (case objOffsets (int (obj k)) of
        None \<Rightarrow> Inr 0
      | Some childEntry \<Rightarrow>
          bindR (readIndirectObject buffer (offset childEntry)) (\<lambda>cdict.
            if hasType ''Page'' cdict then Inr 1
            else if hasType ''Pages'' cdict then recur \<lparr>obj = obj k, gen = gen k\<rparr>
            else Inr 0))"

text \<open>
  A pages node with \<^verbatim>\<open>/Count 9\<close> and three kids: a page, a pages node with
  \<^verbatim>\<open>/Count 2\<close> and no kids, and object 8, which the map does not have.
\<close>

definition treeFile :: string where
  "treeFile = ''2 0 obj\<newline><< /Type /Pages /Kids [3 0 R 4 0 R 8 0 R] /Count 9 >>\<newline>endobj\<newline>3 0 obj\<newline><< /Type /Page /Parent 2 0 R >>\<newline>endobj\<newline>4 0 obj\<newline><< /Type /Pages /Count 2 >>\<newline>endobj\<newline>''"

definition treeOffsets :: offsets where
  "treeOffsets = [2 \<mapsto> \<lparr>offset = 0, generation = 0\<rparr>, 3 \<mapsto> \<lparr>offset = 69, generation = 0\<rparr>, 4 \<mapsto> \<lparr>offset = 116, generation = 0\<rparr>]"

definition treeKidValue :: "ref \<Rightarrow> nat" where
  "treeKidValue k = (if obj k = 3 then 1 else if obj k = 4 then 2 else 0)"

text \<open>
  A pages node with \<^verbatim>\<open>/Count 3\<close> whose one kid is a pages node with no kids and no
  \<^verbatim>\<open>/Count\<close>, and a pages node with \<^verbatim>\<open>/Count 3\<close> whose \<^verbatim>\<open>/Kids\<close> refers to
  object 7, which the map does not have.
\<close>

definition emptyKidFile :: string where
  "emptyKidFile = ''2 0 obj\<newline><< /Type /Pages /Kids [3 0 R] /Count 3 >>\<newline>endobj\<newline>3 0 obj\<newline><< /Type /Pages >>\<newline>endobj\<newline>5 0 obj\<newline><< /Type /Pages /Kids 7 0 R /Count 3 >>\<newline>endobj\<newline>''"

definition emptyKidOffsets :: offsets where
  "emptyKidOffsets = [2 \<mapsto> \<lparr>offset = 0, generation = 0\<rparr>, 3 \<mapsto> \<lparr>offset = 57, generation = 0\<rparr>, 5 \<mapsto> \<lparr>offset = 91, generation = 0\<rparr>]"

subsection \<open>The recursion of the two traversals\<close>

text \<open>
  \<^verbatim>\<open>traversePagesNodeMap\<close> and \<^verbatim>\<open>traversePagesNodeXref\<close> have the same statements and
  differ in how they read the dictionary of the node, the dictionary of a kid, and the
  array of kids. \<open>traversePagesNode\<close> is that common text with the three as arguments;
  reading the dictionary of a kid gives \<open>None\<close> when the loop passes over the kid.
\<close>

fun kidsLoop :: "(ref \<Rightarrow> nat result) \<Rightarrow> (ref \<Rightarrow> string option result) \<Rightarrow> ref list \<Rightarrow> nat \<Rightarrow> nat result" where
  "kidsLoop recur kidDict [] acc = Inr acc"
| "kidsLoop recur kidDict (k # ks) acc =
     bindR (kidDict k) (\<lambda>c.
       case c of
         None \<Rightarrow> kidsLoop recur kidDict ks acc
       | Some cdict \<Rightarrow>
           if hasType ''Page'' cdict then kidsLoop recur kidDict ks (acc + 1)
           else if hasType ''Pages'' cdict then
             bindR (recur k) (\<lambda>n. kidsLoop recur kidDict ks (acc + n))
           else kidsLoop recur kidDict ks acc)"

fun traversePagesNode ::
  "nat \<Rightarrow> (ref \<Rightarrow> string result) \<Rightarrow> (ref \<Rightarrow> string option result) \<Rightarrow> (string \<Rightarrow> ref list result)
     \<Rightarrow> ref \<Rightarrow> nat result" where
  "traversePagesNode 0 nodeDict kidDict kidsOf nodeRef = Inl RangeError"
| "traversePagesNode (Suc stack) nodeDict kidDict kidsOf nodeRef =
     bindR (nodeDict nodeRef) (\<lambda>dict.
       if hasType ''Page'' dict then Inr 1
       else if \<not> hasType ''Pages'' dict then Inr 0
       else let cnt = parseIntFromDict dict ''Count''
            in bindR (kidsOf dict) (\<lambda>kids.
                 if kids = [] then Inr (cntOrZero cnt)
                 else bindR (kidsLoop (traversePagesNode stack nodeDict kidDict kidsOf) kidDict kids 0)
                        (\<lambda>acc. Inr (if acc \<noteq> 0 then acc else cntOrZero cnt))))"

definition nodeDictMap :: "string \<Rightarrow> offsets \<Rightarrow> ref \<Rightarrow> string result" where
  "nodeDictMap buffer objOffsets nodeRef =
     (case objOffsets (int (obj nodeRef)) of
        None \<Rightarrow> Inl (Error ''Node not found'')
      | Some entry \<Rightarrow> readIndirectObject buffer (offset entry))"

definition kidDictMap :: "string \<Rightarrow> offsets \<Rightarrow> ref \<Rightarrow> string option result" where
  "kidDictMap buffer objOffsets k =
     (case objOffsets (int (obj k)) of
        None \<Rightarrow> Inr None
      | Some childEntry \<Rightarrow> bindR (readIndirectObject buffer (offset childEntry)) (\<lambda>cdict. Inr (Some cdict)))"

definition nodeDictXref :: "(string \<Rightarrow> string option) \<Rightarrow> string \<Rightarrow> xmap \<Rightarrow> ref \<Rightarrow> string result" where
  "nodeDictXref inflate buffer xm nodeRef = getObjectDictViaXrefMap inflate buffer xm (obj nodeRef)"

definition kidDictXref :: "(string \<Rightarrow> string option) \<Rightarrow> string \<Rightarrow> xmap \<Rightarrow> ref \<Rightarrow> string option result" where
  "kidDictXref inflate buffer xm k =
     bindR (getObjectDictViaXrefMap inflate buffer xm (obj k)) (\<lambda>cdict. Inr (Some cdict))"

text \<open>
  The kids of a node for which the loop calls the traversal again, when it reaches
  them: the kids of a pages node that can be read and are pages nodes themselves.
  \<open>kidEdges\<close> is the relation of such a kid to its node.
\<close>

definition isPagesNode :: "string \<Rightarrow> bool" where
  "isPagesNode dict = (\<not> hasType ''Page'' dict \<and> hasType ''Pages'' dict)"

definition pagesKids ::
  "(ref \<Rightarrow> string result) \<Rightarrow> (ref \<Rightarrow> string option result) \<Rightarrow> (string \<Rightarrow> ref list result) \<Rightarrow> ref \<Rightarrow> ref list" where
  "pagesKids nodeDict kidDict kidsOf nodeRef =
     (case nodeDict nodeRef of
        Inl e \<Rightarrow> []
      | Inr dict \<Rightarrow>
          if \<not> isPagesNode dict then []
          else case kidsOf dict of
                 Inl e \<Rightarrow> []
               | Inr kids \<Rightarrow>
                   filter (\<lambda>k. case kidDict k of Inr (Some cdict) \<Rightarrow> isPagesNode cdict | _ \<Rightarrow> False) kids)"

definition kidEdges ::
  "(ref \<Rightarrow> string result) \<Rightarrow> (ref \<Rightarrow> string option result) \<Rightarrow> (string \<Rightarrow> ref list result) \<Rightarrow> (ref \<times> ref) set" where
  "kidEdges nodeDict kidDict kidsOf = {(k, n). k \<in> set (pagesKids nodeDict kidDict kidsOf n)}"

definition kidEdgesMap :: "string \<Rightarrow> offsets \<Rightarrow> (ref \<times> ref) set" where
  "kidEdgesMap buffer objOffsets =
     kidEdges (nodeDictMap buffer objOffsets) (kidDictMap buffer objOffsets) (kidsOfMap buffer objOffsets)"

definition kidEdgesXref :: "(string \<Rightarrow> string option) \<Rightarrow> string \<Rightarrow> xmap \<Rightarrow> (ref \<times> ref) set" where
  "kidEdgesXref inflate buffer xm =
     kidEdges (nodeDictXref inflate buffer xm) (kidDictXref inflate buffer xm) (kidsOfXref inflate buffer xm)"

text \<open>
  The values of \<^verbatim>\<open>/Count\<close> that the natural numbers here render as the source has
  them: no number, a number below \<open>2 ^ 53\<close>, which \<^verbatim>\<open>parseInt\<close> reads exactly, and a
  number that it reads as \<^verbatim>\<open>Infinity\<close>.
\<close>

definition exactCount :: "nat option \<Rightarrow> bool" where
  "exactCount cnt = (case cnt of None \<Rightarrow> True | Some c \<Rightarrow> c < 2 ^ 53 \<or> \<not> isIntegerJs c)"

subsection \<open>A file with an incremental update\<close>

text \<open>
  The first revision has a classic table for the catalog 1, the pages node 2 with one
  kid and \<^verbatim>\<open>/Count 1\<close>, and the page 3. The update adds the page 4 and writes the pages
  node 2 again, with two kids and \<^verbatim>\<open>/Count 2\<close>; both are in the object stream 5, and
  the cross-reference stream 6 lists 2 and 4 as compressed and names the classic table
  as \<^verbatim>\<open>/Prev\<close>. \<open>hybridInflate\<close> stands for an inflate function that gives the text of
  the object stream for its one byte.
\<close>

definition hybridFile :: string where
  "hybridFile = ''%PDF-1.5\<newline>1 0 obj\<newline><< /Type /Catalog /Pages 2 0 R >>\<newline>endobj\<newline>2 0 obj\<newline><< /Type /Pages /Kids [3 0 R] /Count 1 >>\<newline>endobj\<newline>3 0 obj\<newline><< /Type /Page /Parent 2 0 R >>\<newline>endobj\<newline>xref\<newline>0 4\<newline>0000000000 65535 f \<newline>0000000009 00000 n \<newline>0000000058 00000 n \<newline>0000000115 00000 n \<newline>trailer\<newline><< /Size 4 /Root 1 0 R >>\<newline>startxref\<newline>162\<newline>%%EOF\<newline>5 0 obj\<newline><< /Type /ObjStm /N 2 /First 9 /Filter /FlateDecode /Length 1 >>\<newline>stream\<newline>Zendstream\<newline>endobj\<newline>6 0 obj\<newline><< /Type /XRef /Size 7 /W [1 2 1] /Index [2 1 4 3] /Root 1 0 R /Prev 162 /Length 16 >>\<newline>stream\<newline>'' @ [CHR 0x02, CHR 0x00, CHR 0x05, CHR 0x00, CHR 0x02, CHR 0x00, CHR 0x05, CHR 0x01, CHR 0x01, CHR 0x01] @ ''1'' @ [CHR 0x00, CHR 0x01, CHR 0x01, CHR 0x93, CHR 0x00] @ ''endstream\<newline>endobj\<newline>startxref\<newline>403\<newline>%%EOF\<newline>''"

definition hybridInflate :: "string \<Rightarrow> string option" where
  "hybridInflate s = (if s = ''Z'' then Some ''2 0 4 48 << /Type /Pages /Kids [3 0 R 4 0 R] /Count 2 >> << /Type /Page /Parent 2 0 R >>'' else None)"

subsection \<open>A page tree with cycles\<close>

text \<open>
  The pages node 2 has two kids: the object 7, for which the map has an offset where no
  object starts, and the node 2 itself. The pages node 3 has itself as its one kid.
\<close>

definition cycleFile :: string where
  "cycleFile = ''2 0 obj\<newline><< /Type /Pages /Kids [7 0 R 2 0 R] /Count 1 >>\<newline>endobj\<newline>3 0 obj\<newline><< /Type /Pages /Kids [3 0 R] >>\<newline>endobj\<newline>''"

definition cycleOffsets :: offsets where
  "cycleOffsets = [2 \<mapsto> \<lparr>offset = 0, generation = 0\<rparr>, 3 \<mapsto> \<lparr>offset = 63, generation = 0\<rparr>, 7 \<mapsto> \<lparr>offset = 1, generation = 0\<rparr>]"

section \<open>Properties\<close>

subsection \<open>The predictor value\<close>

text \<open>
  C7. The cross-reference data depends on the row width and on the filter byte that
  starts each row, not on the value of \<^verbatim>\<open>/Predictor\<close>: for two dictionaries that
  name FlateDecode and whose \<^verbatim>\<open>/DecodeParms\<close> have predictors \<open>p1\<close> and \<open>p2\<close>, both
  10 or more, and the same \<^verbatim>\<open>/Columns\<close>, the decoded data of the same stream is the
  same: the inflated bytes through \<^verbatim>\<open>pngPredictorDecode\<close> with the columns, or with
  \<open>w0 + w1 + w2\<close> when \<^verbatim>\<open>/Columns\<close> is missing or 0.
\<close>

theorem predictor_value_irrelevant:
  assumes "hasFlateDecode d1" and "hasFlateDecode d2"
    and "parseDecodeParms d1 = Some \<lparr>predictor = Some p1, columns = c\<rparr>"
    and "parseDecodeParms d2 = Some \<lparr>predictor = Some p2, columns = c\<rparr>"
    and "10 \<le> p1" and "10 \<le> p2"
  shows "xrefStreamData inflate d1 sb (w0, w1, w2) = xrefStreamData inflate d2 sb (w0, w1, w2)
       \<and> xrefStreamData inflate d1 sb (w0, w1, w2) =
           (case inflate sb of None \<Rightarrow> Inl ZlibError
            | Some data \<Rightarrow>
                Inr (pngPredictorDecode data
                      (case c of None \<Rightarrow> w0 + w1 + w2 | Some n \<Rightarrow> if 0 < n then n else w0 + w1 + w2)))"
  using assms by (simp add: xrefStreamData_def split: option.splits)

theorem predictor_value_irrelevant_witness:
  "hasFlateDecode ''<</Type /XRef /Filter /FlateDecode /DecodeParms <</Columns 6 /Predictor 12>> /W [2 2 2]>>''
 \<and> parseDecodeParms ''<</Type /XRef /Filter /FlateDecode /DecodeParms <</Columns 6 /Predictor 12>> /W [2 2 2]>>''
     = Some \<lparr>predictor = Some 12, columns = Some 6\<rparr>
 \<and> parseDecodeParms ''<</Type /XRef /Filter /FlateDecode /DecodeParms <</Columns 6 /Predictor 10>> /W [2 2 2]>>''
     = Some \<lparr>predictor = Some 10, columns = Some 6\<rparr>
 \<and> xrefStreamData Some ''<</Type /XRef /Filter /FlateDecode /DecodeParms <</Columns 6 /Predictor 12>> /W [2 2 2]>>''
       [CHR 0x02, CHR 0x00, CHR 0x01, CHR 0x00, CHR 0x10, CHR 0x00, CHR 0x00,
        CHR 0x02, CHR 0x00, CHR 0x00, CHR 0x00, CHR 0x05, CHR 0x00, CHR 0x00] (2, 2, 2)
   = xrefStreamData Some ''<</Type /XRef /Filter /FlateDecode /DecodeParms <</Columns 6 /Predictor 10>> /W [2 2 2]>>''
       [CHR 0x02, CHR 0x00, CHR 0x01, CHR 0x00, CHR 0x10, CHR 0x00, CHR 0x00,
        CHR 0x02, CHR 0x00, CHR 0x00, CHR 0x00, CHR 0x05, CHR 0x00, CHR 0x00] (2, 2, 2)
 \<and> xrefStreamData Some ''<</Type /XRef /Filter /FlateDecode /DecodeParms <</Columns 6 /Predictor 12>> /W [2 2 2]>>''
       [CHR 0x02, CHR 0x00, CHR 0x01, CHR 0x00, CHR 0x10, CHR 0x00, CHR 0x00,
        CHR 0x02, CHR 0x00, CHR 0x00, CHR 0x00, CHR 0x05, CHR 0x00, CHR 0x00] (2, 2, 2)
   = Inr [CHR 0x00, CHR 0x01, CHR 0x00, CHR 0x10, CHR 0x00, CHR 0x00,
          CHR 0x00, CHR 0x01, CHR 0x00, CHR 0x15, CHR 0x00, CHR 0x00]"
proof -
  let ?d1 = "''<</Type /XRef /Filter /FlateDecode /DecodeParms <</Columns 6 /Predictor 12>> /W [2 2 2]>>''"
  let ?d2 = "''<</Type /XRef /Filter /FlateDecode /DecodeParms <</Columns 6 /Predictor 10>> /W [2 2 2]>>''"
  let ?sb = "[CHR 0x02, CHR 0x00, CHR 0x01, CHR 0x00, CHR 0x10, CHR 0x00, CHR 0x00,
              CHR 0x02, CHR 0x00, CHR 0x00, CHR 0x00, CHR 0x05, CHR 0x00, CHR 0x00]"
  have f1: "hasFlateDecode ?d1" by code_simp
  have f2: "hasFlateDecode ?d2" by code_simp
  have p1: "parseDecodeParms ?d1 = Some \<lparr>predictor = Some 12, columns = Some 6\<rparr>" by code_simp
  have p2: "parseDecodeParms ?d2 = Some \<lparr>predictor = Some 10, columns = Some 6\<rparr>" by code_simp
  have v: "pngPredictorDecode ?sb 6
             = [CHR 0x00, CHR 0x01, CHR 0x00, CHR 0x10, CHR 0x00, CHR 0x00,
                CHR 0x00, CHR 0x01, CHR 0x00, CHR 0x15, CHR 0x00, CHR 0x00]"
    by code_simp
  have q1: "(10::nat) \<le> 12" and q2: "(10::nat) \<le> 10" by simp_all
  note t = predictor_value_irrelevant [OF f1 f2 p1 p2 q1 q2, of Some ?sb 2 2 2]
  have r: "xrefStreamData Some ?d1 ?sb (2, 2, 2)
             = Inr [CHR 0x00, CHR 0x01, CHR 0x00, CHR 0x10, CHR 0x00, CHR 0x00,
                    CHR 0x00, CHR 0x01, CHR 0x00, CHR 0x15, CHR 0x00, CHR 0x00]"
    unfolding t [THEN conjunct2] by (simp add: v)
  show ?thesis using f1 p1 p2 t [THEN conjunct1] r by blast
qed

subsection \<open>Decoding a cross-reference stream\<close>

lemma byte_less_256: "byte c < 256"
proof -
  have "of_char c mod 256 = (of_char c :: nat)" by (rule of_char_mod_256)
  then show ?thesis unfolding byte_def by (metis mod_less_divisor zero_less_numeral)
qed

lemma byteAt_less: "(case byteAt buf i of None \<Rightarrow> 0 | Some b \<Rightarrow> b) < 256"
  by (simp add: byteAt_def byte_less_256 split: list.splits)

lemma shift_or_nat:
  assumes "b < 256"
  shows "push_bit 8 (a::nat) OR b = a * 256 + b"
proof -
  have "\<And>n. \<not> bit (push_bit 8 a) n \<or> \<not> bit b n"
  proof -
    fix n
    show "\<not> bit (push_bit 8 a) n \<or> \<not> bit b n"
    proof (cases "n < 8")
      case True
      then show ?thesis by (simp add: bit_push_bit_iff)
    next
      case False
      then have "(2::nat) ^ 8 \<le> 2 ^ n" by (intro power_increasing) auto
      then have "b < 2 ^ n" using assms by simp
      then show ?thesis by (simp add: bit_iff_odd)
    qed
  qed
  then have "push_bit 8 a + b = push_bit 8 a OR b" by (rule disjunctive_add)
  then show ?thesis by (simp add: push_bit_eq_mult)
qed

lemma shift_or_word:
  assumes "b < 256"
  shows "push_bit 8 (of_nat a :: 32 word) OR of_nat b = of_nat (a * 256 + b)"
  by (metis assms of_nat_or_eq push_bit_of_nat shift_or_nat)

lemma foldl_word_be:
  assumes "\<forall>i \<in> set is. f i < 256"
  shows "foldl (\<lambda>(n :: 32 word) i. push_bit 8 n OR of_nat (f i)) (of_nat a) is
         = of_nat (foldl (\<lambda>n b. n * 256 + b) a (map f is))"
  using assms
proof (induction "is" arbitrary: a)
  case Nil
  then show ?case by simp
next
  case (Cons i "is")
  let ?F = "\<lambda>(n :: 32 word) i. push_bit 8 n OR of_nat (f i)"
  have step: "push_bit 8 (of_nat a :: 32 word) OR of_nat (f i) = of_nat (a * 256 + f i)"
    by (rule shift_or_word) (use Cons.prems in simp)
  have "foldl ?F (of_nat a) (i # is) = foldl ?F (push_bit 8 (of_nat a) OR of_nat (f i)) is"
    by (simp only: foldl_Cons)
  also have "\<dots> = foldl ?F (of_nat (a * 256 + f i)) is"
    by (simp only: step)
  also have "\<dots> = of_nat (foldl (\<lambda>n b. n * 256 + b) (a * 256 + f i) (map f is))"
    by (rule Cons.IH) (use Cons.prems in simp)
  finally show ?case by simp
qed

lemma readUIntBE_be: "readUIntBE buf pos len = beValue (fieldBytes buf pos len) mod 2 ^ 32"
proof (cases "len = 0")
  case True
  then show ?thesis by (simp add: readUIntBE_def beValue_def fieldBytes_def)
next
  case False
  have "foldl (\<lambda>(n :: 32 word) i. push_bit 8 n OR of_nat (case byteAt buf (pos + i) of None \<Rightarrow> 0 | Some b \<Rightarrow> b))
          (of_nat 0) [0..<len]
        = of_nat (foldl (\<lambda>n b. n * 256 + b) 0
            (map (\<lambda>i. case byteAt buf (pos + i) of None \<Rightarrow> 0 | Some b \<Rightarrow> b) [0..<len]))"
    by (rule foldl_word_be) (simp add: byteAt_less)
  then show ?thesis using False
    by (simp add: readUIntBE_def beValue_def fieldBytes_def unat_of_nat)
qed

lemma beValue_snoc: "beValue (bs @ [b]) = beValue bs * 256 + b"
  by (simp add: beValue_def)

lemma beValue_bound:
  assumes "\<forall>b \<in> set bs. b < 256"
  shows "beValue bs < 256 ^ length bs"
  using assms
proof (induction bs rule: rev_induct)
  case Nil
  then show ?case by (simp add: beValue_def)
next
  case (snoc b bs)
  then have "beValue bs < 256 ^ length bs" and "b < 256" by simp_all
  then have "beValue bs * 256 + b < 256 ^ length bs * 256" by arith
  then show ?case by (simp add: beValue_snoc)
qed

lemma fieldBytes_bytes: "\<forall>b \<in> set (fieldBytes buf pos len). b < 256"
  by (auto simp: fieldBytes_def byteAt_less)

lemma readUIntBE_exact:
  assumes "len \<le> 4"
  shows "readUIntBE buf pos len = beValue (fieldBytes buf pos len)"
proof -
  have "beValue (fieldBytes buf pos len) < 256 ^ length (fieldBytes buf pos len)"
    by (rule beValue_bound) (rule fieldBytes_bytes)
  also have "\<dots> = 256 ^ len" by (simp add: fieldBytes_def)
  also have "\<dots> \<le> (256::nat) ^ 4" using assms by (intro power_increasing) auto
  finally have "beValue (fieldBytes buf pos len) < 2 ^ 32" by simp
  then show ?thesis by (simp add: readUIntBE_be)
qed


lemma decodeEntries_append:
  "decodeEntries data w k (ns @ ms) xm = decodeEntries data w (k + length ns) ms (decodeEntries data w k ns xm)"
  by (induction ns arbitrary: k xm) simp_all

lemma upt_head: "[j..<j + Suc n] = j # [Suc j..<Suc j + n]"
  by (subst upt_rec) simp

lemma xrefStreamEntries_decode:
  "xrefStreamEntries data w objStart j n (k * entryWidth w, xm)
   = ((k + n) * entryWidth w, decodeEntries data w k (map (\<lambda>i. objStart + int i) [j..<j + n]) xm)"
proof (induction n arbitrary: j k xm)
  case 0
  then show ?case by simp
next
  case (Suc n)
  have "xrefStreamEntries data w objStart j (Suc n) (k * entryWidth w, xm)
        = xrefStreamEntries data w objStart (Suc j) n
            (Suc k * entryWidth w, xrefStreamEntry data (k * entryWidth w) w (objStart + int j) xm)"
    by (simp add: entryWidth_def algebra_simps)
  also have "\<dots> = ((Suc k + n) * entryWidth w,
       decodeEntries data w (Suc k) (map (\<lambda>i. objStart + int i) [Suc j..<Suc j + n])
         (xrefStreamEntry data (k * entryWidth w) w (objStart + int j) xm))"
    by (rule Suc.IH)
  finally have e: "xrefStreamEntries data w objStart j (Suc n) (k * entryWidth w, xm)
      = ((Suc k + n) * entryWidth w,
         decodeEntries data w (Suc k) (map (\<lambda>i. objStart + int i) [Suc j..<Suc j + n])
           (xrefStreamEntry data (k * entryWidth w) w (objStart + int j) xm))" .
  have d: "decodeEntries data w k (map (\<lambda>i. objStart + int i) [j..<j + Suc n]) xm
      = decodeEntries data w (Suc k) (map (\<lambda>i. objStart + int i) [Suc j..<Suc j + n])
           (xrefStreamEntry data (k * entryWidth w) w (objStart + int j) xm)"
    by (simp only: upt_head list.map decodeEntries.simps)
  show ?case unfolding e d by simp
qed

lemma xrefStreamSubsections_decode:
  "xrefStreamSubsections data w idx (k * entryWidth w, xm)
   = ((k + length (indexObjNums idx)) * entryWidth w, decodeEntries data w k (indexObjNums idx) xm)"
proof (induction idx arbitrary: k xm rule: indexObjNums.induct)
  case (1 objStart count rest)
  show ?case
    using xrefStreamEntries_decode [of data w objStart 0 "nat count" k xm]
          "1.IH" [of "k + nat count" "decodeEntries data w k (map (\<lambda>i. objStart + int i) [0..<nat count]) xm"]
    by (simp add: decodeEntries_append add.assoc)
qed simp_all


lemma buildXrefMapFromXrefStream_decode:
  "buildXrefMapFromXrefStream inflate xo =
     bindR (readSize (dictString xo)) (\<lambda>sz.
     bindR (readWArray (dictString xo)) (\<lambda>w.
     bindR (xrefStreamData inflate (dictString xo) (streamBuffer xo) w) (\<lambda>data.
       Inr (decodeEntries data w 0 (indexObjNums (readIndexArray (dictString xo) sz)) emptyXmap))))"
proof -
  have "snd (xrefStreamSubsections data w idx (0, xm)) = decodeEntries data w 0 (indexObjNums idx) xm"
    for data w idx xm
    using xrefStreamSubsections_decode [of data w idx 0 xm] by simp
  then show ?thesis by (simp add: buildXrefMapFromXrefStream_def Let_def)
qed

lemma xrefStreamEntry_be:
  "xrefStreamEntry data p (w0, w1, w2) objNum xm =
     (let ty = (if w0 = 0 then 1 else beValue (fieldBytes data p w0) mod 2 ^ 32);
          f2 = beValue (fieldBytes data (p + w0) w1) mod 2 ^ 32;
          f3 = beValue (fieldBytes data (p + w0 + w1) w2) mod 2 ^ 32
      in if ty = 1 then xm\<lparr>objToOffset := (objToOffset xm)(objNum \<mapsto> \<lparr>offset = f2, generation = f3\<rparr>)\<rparr>
         else if ty = 2 then xm\<lparr>objToObjStm := (objToObjStm xm)(objNum \<mapsto> \<lparr>objstm = f2, index = f3\<rparr>)\<rparr>
         else xm)"
  by (simp add: xrefStreamEntry_def readUIntBE_be Let_def)

lemma readIndexArray_missing:
  "reSearch reIndexArray d = None \<Longrightarrow> readIndexArray d sz = [0, int sz]"
  by (simp add: readIndexArray_def)

lemma beValue_fits:
  "len \<le> 4 \<Longrightarrow> beValue (fieldBytes data p len) mod 2 ^ 32 = beValue (fieldBytes data p len)"
  using readUIntBE_exact [of len data p] readUIntBE_be [of data p len] by simp

text \<open>
  C5, as amended. \<^verbatim>\<open>buildXrefMapFromXrefStream\<close> decodes the entries for the object
  numbers of the \<^verbatim>\<open>/Index\<close> subsections in their order, entry \<open>k\<close> from the
  \<open>w0 + w1 + w2\<close> bytes at \<open>k * (w0 + w1 + w2)\<close>. The three fields of an entry are the
  big-endian values of their bytes modulo \<open>2^32\<close>, which is the big-endian value itself
  for a field of at most 4 bytes; the type is 1 when \<open>w0 = 0\<close>; an entry of type 1
  records \<open>objNum \<mapsto> {offset: f2, gen: f3}\<close>, one of type 2 records
  \<open>objNum \<mapsto> {objstm: f2, index: f3}\<close>, and one of type 0, or of any other type,
  records nothing. A dictionary without \<^verbatim>\<open>/Index\<close> gives the one subsection
  \<open>[0, Size]\<close>.
\<close>

theorem xref_stream_decoding:
  "buildXrefMapFromXrefStream inflate xo =
     bindR (readSize (dictString xo)) (\<lambda>sz.
     bindR (readWArray (dictString xo)) (\<lambda>w.
     bindR (xrefStreamData inflate (dictString xo) (streamBuffer xo) w) (\<lambda>data.
       Inr (decodeEntries data w 0 (indexObjNums (readIndexArray (dictString xo) sz)) emptyXmap))))
 \<and> xrefStreamEntry data p (w0, w1, w2) objNum xm =
     (let ty = (if w0 = 0 then 1 else beValue (fieldBytes data p w0) mod 2 ^ 32);
          f2 = beValue (fieldBytes data (p + w0) w1) mod 2 ^ 32;
          f3 = beValue (fieldBytes data (p + w0 + w1) w2) mod 2 ^ 32
      in if ty = 1 then xm\<lparr>objToOffset := (objToOffset xm)(objNum \<mapsto> \<lparr>offset = f2, generation = f3\<rparr>)\<rparr>
         else if ty = 2 then xm\<lparr>objToObjStm := (objToObjStm xm)(objNum \<mapsto> \<lparr>objstm = f2, index = f3\<rparr>)\<rparr>
         else xm)
 \<and> (len \<le> 4 \<longrightarrow> beValue (fieldBytes data p len) mod 2 ^ 32 = beValue (fieldBytes data p len))
 \<and> (reSearch reIndexArray d = None \<longrightarrow> readIndexArray d sz = [0, int sz])"
  using buildXrefMapFromXrefStream_decode [of inflate xo] xrefStreamEntry_be [of data p w0 w1 w2 objNum xm]
    beValue_fits [of len data p] readIndexArray_missing [of d sz]
  by blast

theorem xref_stream_decoding_witness:
  "map_sum id (\<lambda>xm. (objToOffset xm 0, objToOffset xm 1, objToOffset xm 2, objToObjStm xm 1, objToObjStm xm 2))
     (bindR (readSize ''<</Type /XRef /Size 3 /W [1 2 1]>>'') (\<lambda>sz.
      bindR (readWArray ''<</Type /XRef /Size 3 /W [1 2 1]>>'') (\<lambda>w.
      bindR (xrefStreamData (\<lambda>s. None) ''<</Type /XRef /Size 3 /W [1 2 1]>>''
               [CHR 0x00, CHR 0x00, CHR 0x00, CHR 0xFF, CHR 0x01, CHR 0x00, CHR 0x10, CHR 0x00,
                CHR 0x02, CHR 0x00, CHR 0x01, CHR 0x05] w) (\<lambda>data.
        Inr (decodeEntries data w 0
              (indexObjNums (readIndexArray ''<</Type /XRef /Size 3 /W [1 2 1]>>'' sz)) emptyXmap)))))
   = Inr (None, Some \<lparr>offset = 16, generation = 0\<rparr>, None, None, Some \<lparr>objstm = 1, index = 5\<rparr>)
 \<and> (2::nat) \<le> 4
 \<and> beValue (fieldBytes [CHR 0x01, CHR 0x00, CHR 0x10, CHR 0x00] 1 2) mod 2 ^ 32 = 16
 \<and> reSearch reIndexArray ''<</Type /XRef /Size 3 /W [1 2 1]>>'' = None
 \<and> readIndexArray ''<</Type /XRef /Size 3 /W [1 2 1]>>'' 3 = [0, 3]"
proof -
  let ?d = "''<</Type /XRef /Size 3 /W [1 2 1]>>''"
  let ?sb = "[CHR 0x00, CHR 0x00, CHR 0x00, CHR 0xFF, CHR 0x01, CHR 0x00, CHR 0x10, CHR 0x00,
              CHR 0x02, CHR 0x00, CHR 0x01, CHR 0x05]"
  let ?e = "[CHR 0x01, CHR 0x00, CHR 0x10, CHR 0x00]"
  note t = xref_stream_decoding [of "\<lambda>s. None" "\<lparr>dictString = ?d, streamBuffer = ?sb\<rparr>" ?e 1 2 2 2 0 emptyXmap
      2 ?d 3]
  have v: "map_sum id (\<lambda>xm. (objToOffset xm 0, objToOffset xm 1, objToOffset xm 2, objToObjStm xm 1, objToObjStm xm 2))
     (buildXrefMapFromXrefStream (\<lambda>s. None) \<lparr>dictString = ?d, streamBuffer = ?sb\<rparr>)
     = Inr (None, Some \<lparr>offset = 16, generation = 0\<rparr>, None, None, Some \<lparr>objstm = 1, index = 5\<rparr>)"
    by code_simp
  have e1: "buildXrefMapFromXrefStream (\<lambda>s. None) \<lparr>dictString = ?d, streamBuffer = ?sb\<rparr> =
     bindR (readSize ?d) (\<lambda>sz.
     bindR (readWArray ?d) (\<lambda>w.
     bindR (xrefStreamData (\<lambda>s. None) ?d ?sb w) (\<lambda>data.
       Inr (decodeEntries data w 0 (indexObjNums (readIndexArray ?d sz)) emptyXmap))))"
    using t by simp
  have g1: "map_sum id (\<lambda>xm. (objToOffset xm 0, objToOffset xm 1, objToOffset xm 2, objToObjStm xm 1, objToObjStm xm 2))
     (bindR (readSize ?d) (\<lambda>sz.
      bindR (readWArray ?d) (\<lambda>w.
      bindR (xrefStreamData (\<lambda>s. None) ?d ?sb w) (\<lambda>data.
        Inr (decodeEntries data w 0 (indexObjNums (readIndexArray ?d sz)) emptyXmap)))))
     = Inr (None, Some \<lparr>offset = 16, generation = 0\<rparr>, None, None, Some \<lparr>objstm = 1, index = 5\<rparr>)"
    using v by (simp only: e1)
  have bv: "beValue (fieldBytes ?e 1 2) = 16" by code_simp
  have g3: "beValue (fieldBytes ?e 1 2) mod 2 ^ 32 = 16"
    using t bv by simp
  have g4: "reSearch reIndexArray ?d = None" by code_simp
  have g5: "readIndexArray ?d 3 = [0, 3]"
    using t g4 by simp
  show ?thesis using g1 g3 g4 g5 by simp
qed

theorem xref_stream_wide_field_counterexample:
  "beValue (fieldBytes [CHR 0x01, CHR 0x01, CHR 0x00, CHR 0x00, CHR 0x00, CHR 0x00, CHR 0x00] 1 5) = 4294967296
 \<and> objToOffset (xrefStreamEntry [CHR 0x01, CHR 0x01, CHR 0x00, CHR 0x00, CHR 0x00, CHR 0x00, CHR 0x00] 0 (1, 5, 1) 7 emptyXmap) 7
     = Some \<lparr>offset = 0, generation = 0\<rparr>"
proof
  show "beValue (fieldBytes [CHR 0x01, CHR 0x01, CHR 0x00, CHR 0x00, CHR 0x00, CHR 0x00, CHR 0x00] 1 5) = 4294967296"
    by (simp add: beValue_def fieldBytes_def byteAt_def byte_def upt_rec)
  show "objToOffset (xrefStreamEntry [CHR 0x01, CHR 0x01, CHR 0x00, CHR 0x00, CHR 0x00, CHR 0x00, CHR 0x00] 0 (1, 5, 1) 7 emptyXmap) 7
     = Some \<lparr>offset = 0, generation = 0\<rparr>"
    by code_simp
qed

subsection \<open>The strategies on the example files\<close>

lemma guard3_xref_stream_traversal:
  "countPagesViaXrefStreamTraversal 8 (\<lambda>s. None) guard3 = Inl (Error ''Invalid object header'')"
  by code_simp

lemma guard3_classic_traversal:
  "countPagesViaClassicTraversal 8 guard3 = Inl (Error ''Invalid object header'')"
  by code_simp

lemma guard3_classic_count: "parsePageCountViaClassicXref guard3 = Inr 1"
  by code_simp

lemma guard3_page_objects: "countPagesByPageObjects (\<lambda>s. None) guard3 = 2"
  by code_simp

lemma guard4_xref_stream_traversal:
  "countPagesViaXrefStreamTraversal 8 inflate4 guard4 = Inl (Error ''Object not found in xref map'')"
  by code_simp

lemma guard4_classic_traversal:
  "countPagesViaClassicTraversal 8 guard4 = Inl (Error ''No trailer found'')"
  by code_simp

lemma guard4_classic_count: "parsePageCountViaClassicXref guard4 = Inl (Error ''Not a classic xref table'')"
  by code_simp

lemma guard4_xref_stream_count: "parsePageCountViaXrefStream inflate4 guard4 = Inr 1"
  by code_simp

lemma guard4_page_objects: "countPagesByPageObjects inflate4 guard4 = 0"
  by code_simp

lemmas guard3_values =
  guard3_xref_stream_traversal guard3_classic_traversal guard3_classic_count guard3_page_objects

lemmas guard4_values =
  guard4_xref_stream_traversal guard4_classic_traversal guard4_classic_count
  guard4_xref_stream_count guard4_page_objects

subsection \<open>The orchestrator\<close>






lemma countPdfPagesSync_waterfall:
  "countPdfPagesSync stack inflate buffer =
     (case firstSome (strategies stack inflate buffer) of
        Some n \<Rightarrow> Inr n
      | None \<Rightarrow> Inl (Error ''PDF page count not found''))"
  by (simp add: countPdfPagesSync_def strategies_def Let_def max_def tryPositive_def split: option.splits sum.splits)

lemma firstSome_at:
  "i < length xs \<Longrightarrow> xs ! i = Some n \<Longrightarrow> (\<forall>j<i. xs ! j = None) \<Longrightarrow> firstSome xs = Some n"
proof (induction xs arbitrary: i)
  case Nil
  then show ?case by simp
next
  case (Cons x xs)
  show ?case
  proof (cases i)
    case 0
    with Cons.prems show ?thesis by simp
  next
    case (Suc k)
    with Cons.prems have "x = None" by auto
    moreover have "firstSome xs = Some n"
      using Cons.prems Suc by (intro Cons.IH [of k]) auto
    ultimately show ?thesis by simp
  qed
qed

text \<open>
  C2. \<^verbatim>\<open>countPdfPagesSync\<close> returns the first result of the list of the seven
  strategies, in the order of the list, that is a positive number, and throws when
  there is none. So the result is that of strategy \<open>i\<close> whenever the strategies
  before it give none, whatever the strategies after it would give.
\<close>

theorem countPdfPagesSync_strategy_order:
  "countPdfPagesSync stack inflate buffer =
     (case firstSome (strategies stack inflate buffer) of
        Some n \<Rightarrow> Inr n
      | None \<Rightarrow> Inl (Error ''PDF page count not found''))
 \<and> (i < length (strategies stack inflate buffer)
      \<and> strategies stack inflate buffer ! i = Some n
      \<and> (\<forall>j<i. strategies stack inflate buffer ! j = None)
     \<longrightarrow> countPdfPagesSync stack inflate buffer = Inr n)"
  using firstSome_at [of i "strategies stack inflate buffer" n]
  by (auto simp: countPdfPagesSync_waterfall)

lemma guard3_first_strategies:
  "take 3 (strategies 8 (\<lambda>s. None) guard3) = [None, None, Some 2]"
  by (simp add: strategies_def tryPositive_def guard3_values)

theorem countPdfPagesSync_strategy_order_witness:
  "take 3 (strategies 8 (\<lambda>s. None) guard3) = [None, None, Some 2]
 \<and> countPdfPagesSync 8 (\<lambda>s. None) guard3 = Inr 2"
proof -
  have s: "strategies 8 (\<lambda>s. None) guard3 ! j = take 3 (strategies 8 (\<lambda>s. None) guard3) ! j" if "j < 3" for j
    using that by simp
  have l: "length (strategies 8 (\<lambda>s. None) guard3) = 7" by (simp add: strategies_def)
  have "(2::nat) < length (strategies 8 (\<lambda>s. None) guard3)
      \<and> strategies 8 (\<lambda>s. None) guard3 ! 2 = Some 2
      \<and> (\<forall>j<2. strategies 8 (\<lambda>s. None) guard3 ! j = None)"
    by (simp add: l s guard3_first_strategies less_Suc_eq numeral_2_eq_2)
  then have "countPdfPagesSync 8 (\<lambda>s. None) guard3 = Inr 2"
    using countPdfPagesSync_strategy_order [of 8 "\<lambda>s. None" guard3 2 2] by blast
  then show ?thesis using guard3_first_strategies by simp
qed

text \<open>
  C6. In the strategies 3 and 4, when the reading of \<^verbatim>\<open>/Count\<close> returns a positive
  number \<open>n\<close> (and the strategies before have given none), the result is the larger
  of \<open>n\<close> and the result of the page-object counter: the counter's when it is
  strictly larger than \<open>n\<close>, and \<open>n\<close> otherwise.
\<close>

theorem count_guarded_by_page_objects:
  "(tryPositive (countPagesViaXrefStreamTraversal stack inflate buffer) = None
    \<and> tryPositive (countPagesViaClassicTraversal stack buffer) = None
    \<and> tryPositive (parsePageCountViaClassicXref buffer) = Some n
    \<longrightarrow> countPdfPagesSync stack inflate buffer
          = Inr (if n < countPagesByPageObjects inflate buffer then countPagesByPageObjects inflate buffer else n)
        \<and> countPdfPagesSync stack inflate buffer = Inr (max n (countPagesByPageObjects inflate buffer)))
 \<and> (tryPositive (countPagesViaXrefStreamTraversal stack inflate buffer) = None
    \<and> tryPositive (countPagesViaClassicTraversal stack buffer) = None
    \<and> tryPositive (parsePageCountViaClassicXref buffer) = None
    \<and> tryPositive (parsePageCountViaXrefStream inflate buffer) = Some n
    \<longrightarrow> countPdfPagesSync stack inflate buffer
          = Inr (if n < countPagesByPageObjects inflate buffer then countPagesByPageObjects inflate buffer else n)
        \<and> countPdfPagesSync stack inflate buffer = Inr (max n (countPagesByPageObjects inflate buffer)))"
  by (simp add: countPdfPagesSync_def Let_def max_def)

lemma guard3_tries:
  "tryPositive (countPagesViaXrefStreamTraversal 8 (\<lambda>s. None) guard3) = None
 \<and> tryPositive (countPagesViaClassicTraversal 8 guard3) = None
 \<and> tryPositive (parsePageCountViaClassicXref guard3) = Some 1
 \<and> countPagesByPageObjects (\<lambda>s. None) guard3 = 2"
  by (simp add: tryPositive_def guard3_values)

lemma guard4_tries:
  "tryPositive (countPagesViaXrefStreamTraversal 8 inflate4 guard4) = None
 \<and> tryPositive (countPagesViaClassicTraversal 8 guard4) = None
 \<and> tryPositive (parsePageCountViaClassicXref guard4) = None
 \<and> tryPositive (parsePageCountViaXrefStream inflate4 guard4) = Some 1
 \<and> countPagesByPageObjects inflate4 guard4 = 0"
  by (simp add: tryPositive_def guard4_values)

theorem count_guarded_by_page_objects_witness:
  "tryPositive (parsePageCountViaClassicXref guard3) = Some 1
 \<and> countPagesByPageObjects (\<lambda>s. None) guard3 = 2
 \<and> countPdfPagesSync 8 (\<lambda>s. None) guard3 = Inr 2
 \<and> tryPositive (parsePageCountViaXrefStream inflate4 guard4) = Some 1
 \<and> countPagesByPageObjects inflate4 guard4 = 0
 \<and> countPdfPagesSync 8 inflate4 guard4 = Inr 1"
proof -
  have a: "countPdfPagesSync 8 (\<lambda>s. None) guard3 = Inr 2"
    using count_guarded_by_page_objects [of 8 "\<lambda>s. None" guard3 1] guard3_tries by simp
  have b: "countPdfPagesSync 8 inflate4 guard4 = Inr 1"
    using count_guarded_by_page_objects [of 8 inflate4 guard4 1] guard4_tries by simp
  show ?thesis using a b guard3_tries guard4_tries by simp
qed

subsection \<open>The scan of the inflated streams\<close>

lemma scanStreamsLoop_first:
  "globalMax = 0 \<Longrightarrow>
   scanStreamsLoop inflate buffer pos globalMax = snd (firstProductive inflate buffer (streamCandidates buffer pos))"
proof (induction inflate buffer pos globalMax rule: scanStreamsLoop.induct)
  case (1 inflate buffer pos globalMax)
  show ?case
  proof (cases "indexOf buffer ''stream'' pos")
    case None
    then show ?thesis
      by (subst scanStreamsLoop.simps, subst streamCandidates.simps) (simp add: "1.prems")
  next
    case (Some streamIdx)
    show ?thesis
    proof (cases "0 < localMaxAt inflate buffer streamIdx")
      case True
      then show ?thesis
        by (subst scanStreamsLoop.simps, subst streamCandidates.simps)
           (auto simp: Some "1.prems" localMaxAt_def Let_def split: option.splits)
    next
      case False
      then show ?thesis
        using "1.IH"(1) [OF Some] "1.IH"(2) [OF Some] "1.IH"(3) [OF Some]
        by (subst scanStreamsLoop.simps, subst streamCandidates.simps)
           (auto simp: Some "1.prems" localMaxAt_def Let_def split: option.splits prod.splits)
    qed
  qed
qed

lemma scanMaxPagesCountFromObjectStreams_first:
  "scanMaxPagesCountFromObjectStreams inflate buffer
     = snd (firstProductive inflate buffer (streamCandidates buffer 0))"
  by (simp add: scanMaxPagesCountFromObjectStreams_def scanStreamsLoop_first)

lemma firstProductive_cong:
  "(\<forall>j \<in> set (fst (firstProductive inflate buffer cs)). localMaxAt inflate' buffer j = localMaxAt inflate buffer j)
   \<Longrightarrow> firstProductive inflate' buffer cs = firstProductive inflate buffer cs"
  by (induction cs) (auto split: prod.splits if_splits)

lemma twoStreams_candidates: "streamCandidates twoStreams 0 = [24, 35, 66, 77]"
  by code_simp

lemma twoStreams_first: "firstProductive inflateAB twoStreams [24, 35, 66, 77] = ([24], 3)"
  by code_simp

lemma twoStreams_local:
  "localMaxAt inflateA twoStreams 24 = 3 \<and> localMaxAt inflateAB twoStreams 24 = 3
   \<and> localMaxAt inflateAB twoStreams 66 = 9"
  by code_simp

text \<open>
  C10. \<^verbatim>\<open>scanMaxPagesCountFromObjectStreams\<close> returns the local maximum of the first
  stream, in buffer order, whose local maximum is positive, and 0 when there is none.
  The streams after that one are not examined: the result is the same for every
  inflate function that gives the same local maxima on the streams up to it. So the
  result is not in general the maximum over all the streams: there are a buffer and an
  inflate function where a later stream has a larger local maximum than the result.
\<close>

theorem scan_streams_first_productive:
  "scanMaxPagesCountFromObjectStreams inflate buffer
     = snd (firstProductive inflate buffer (streamCandidates buffer 0))
 \<and> ((\<forall>j \<in> set (fst (firstProductive inflate buffer (streamCandidates buffer 0))).
        localMaxAt inflate' buffer j = localMaxAt inflate buffer j)
     \<longrightarrow> scanMaxPagesCountFromObjectStreams inflate' buffer = scanMaxPagesCountFromObjectStreams inflate buffer)
 \<and> (\<exists>inflate0 buffer0 i. i \<in> set (streamCandidates buffer0 0)
        \<and> scanMaxPagesCountFromObjectStreams inflate0 buffer0 < localMaxAt inflate0 buffer0 i)"
proof (intro conjI impI)
  show "scanMaxPagesCountFromObjectStreams inflate buffer
     = snd (firstProductive inflate buffer (streamCandidates buffer 0))"
    by (rule scanMaxPagesCountFromObjectStreams_first)
  show "scanMaxPagesCountFromObjectStreams inflate' buffer = scanMaxPagesCountFromObjectStreams inflate buffer"
    if "\<forall>j \<in> set (fst (firstProductive inflate buffer (streamCandidates buffer 0))).
          localMaxAt inflate' buffer j = localMaxAt inflate buffer j"
    using firstProductive_cong [OF that] by (simp add: scanMaxPagesCountFromObjectStreams_first)
  have "scanMaxPagesCountFromObjectStreams inflateAB twoStreams = 3"
    by (simp only: scanMaxPagesCountFromObjectStreams_first twoStreams_candidates twoStreams_first snd_conv)
  moreover have "66 \<in> set (streamCandidates twoStreams 0)" by (simp add: twoStreams_candidates)
  ultimately have "66 \<in> set (streamCandidates twoStreams 0)
      \<and> scanMaxPagesCountFromObjectStreams inflateAB twoStreams < localMaxAt inflateAB twoStreams 66"
    using twoStreams_local by simp
  then show "\<exists>inflate0 buffer0 i. i \<in> set (streamCandidates buffer0 0)
        \<and> scanMaxPagesCountFromObjectStreams inflate0 buffer0 < localMaxAt inflate0 buffer0 i"
    by blast
qed

theorem scan_streams_first_productive_witness:
  "fst (firstProductive inflateAB twoStreams (streamCandidates twoStreams 0)) = [24]
 \<and> localMaxAt inflateA twoStreams 24 = localMaxAt inflateAB twoStreams 24
 \<and> scanMaxPagesCountFromObjectStreams inflateAB twoStreams = 3
 \<and> scanMaxPagesCountFromObjectStreams inflateA twoStreams = 3
 \<and> localMaxAt inflateAB twoStreams 66 = 9"
proof -
  note t = scan_streams_first_productive [of inflateAB twoStreams inflateA]
  have e: "fst (firstProductive inflateAB twoStreams (streamCandidates twoStreams 0)) = [24]"
    by (simp only: twoStreams_candidates twoStreams_first fst_conv)
  from t have "scanMaxPagesCountFromObjectStreams inflateAB twoStreams
      = snd (firstProductive inflateAB twoStreams (streamCandidates twoStreams 0))" by blast
  then have r: "scanMaxPagesCountFromObjectStreams inflateAB twoStreams = 3"
    by (simp only: twoStreams_candidates twoStreams_first snd_conv)
  have "\<forall>j \<in> set (fst (firstProductive inflateAB twoStreams (streamCandidates twoStreams 0))).
          localMaxAt inflateA twoStreams j = localMaxAt inflateAB twoStreams j"
    using twoStreams_local by (simp add: e)
  with t have "scanMaxPagesCountFromObjectStreams inflateA twoStreams
      = scanMaxPagesCountFromObjectStreams inflateAB twoStreams" by blast
  then show ?thesis using e r twoStreams_local by simp
qed

subsection \<open>The entries of a classic table\<close>

lemma isDigit_not_space: "isDigit c \<Longrightarrow> \<not> isSpaceJs c"
  by (auto simp: isDigit_def isSpaceJs_def)

lemma space_isSpaceJs: "isSpaceJs (CHR '' '')"
  by (simp add: isSpaceJs_def byte_def)

lemma flag_not_space: "flag = CHR ''n'' \<or> flag = CHR ''f'' \<Longrightarrow> \<not> isSpaceJs flag"
  by (auto simp: isSpaceJs_def byte_def)

lemma mDigitsN_prefix: "isDigits n ds \<Longrightarrow> mDigitsN n (ds @ rest) = Some (ds, rest)"
  by (simp add: mDigitsN_def isDigits_def)

lemma mSpaces1_one_space: "s \<noteq> [] \<Longrightarrow> \<not> isSpaceJs (hd s) \<Longrightarrow> mSpaces1 (CHR '' '' # s) = Some s"
  by (cases s) (simp_all add: mSpaces1_def space_isSpaceJs)

lemma reXrefEntry_fixedWidth:
  assumes "isDigits 10 ds" and "isDigits 5 gs" and "flag = CHR ''n'' \<or> flag = CHR ''f''"
  shows "reXrefEntry (fixedWidthEntry ds gs flag @ rest) = Some (ds, gs, flag)"
proof -
  from assms(2) obtain g gs' where gs: "gs = g # gs'" and g: "isDigit g"
    by (cases gs) (auto simp: isDigits_def)
  have 1: "mDigitsN 10 (ds @ CHR '' '' # gs @ CHR '' '' # flag # rest) = Some (ds, CHR '' '' # gs @ CHR '' '' # flag # rest)"
    using assms(1) by (rule mDigitsN_prefix)
  have 2: "mSpaces1 (CHR '' '' # gs @ CHR '' '' # flag # rest) = Some (gs @ CHR '' '' # flag # rest)"
    by (rule mSpaces1_one_space) (simp_all add: gs g isDigit_not_space)
  have 3: "mDigitsN 5 (gs @ CHR '' '' # flag # rest) = Some (gs, CHR '' '' # flag # rest)"
    using assms(2) by (rule mDigitsN_prefix)
  have 4: "mSpaces1 (CHR '' '' # flag # rest) = Some (flag # rest)"
    by (rule mSpaces1_one_space) (simp_all add: flag_not_space assms(3))
  show ?thesis
    using assms(3) by (auto simp: reXrefEntry_def fixedWidthEntry_def 1 2 3 4)
qed

lemma mSpaces1_shape:
  "mSpaces1 s = Some s' \<Longrightarrow> \<exists>sp. s = sp @ s' \<and> sp \<noteq> [] \<and> list_all isSpaceJs sp"
proof (cases s)
  case Nil
  assume "mSpaces1 s = Some s'" with Nil show ?thesis by (simp add: mSpaces1_def)
next
  case (Cons c cs)
  assume "mSpaces1 s = Some s'"
  with Cons have c: "isSpaceJs c" and s': "s' = dropWhile isSpaceJs cs"
    by (auto simp: mSpaces1_def split: if_splits)
  have "s = (c # takeWhile isSpaceJs cs) @ s'" by (simp add: Cons s')
  moreover have "list_all isSpaceJs (c # takeWhile isSpaceJs cs)"
    using c by (simp add: list_all_iff) (meson set_takeWhileD)
  ultimately show ?thesis by blast
qed

lemma mDigitsN_shape:
  "mDigitsN n s = Some (ds, s') \<Longrightarrow> s = ds @ s' \<and> isDigits n ds"
  by (auto simp: mDigitsN_def isDigits_def split: if_splits)

lemma reXrefEntry_shape:
  assumes "reXrefEntry line = Some (d1, d2, flag)"
  shows "isDigits 10 d1 \<and> isDigits 5 d2 \<and> (flag = CHR ''n'' \<or> flag = CHR ''f'')
       \<and> (\<exists>sp1 sp2 rest. line = d1 @ sp1 @ d2 @ sp2 @ flag # rest
             \<and> sp1 \<noteq> [] \<and> list_all isSpaceJs sp1 \<and> sp2 \<noteq> [] \<and> list_all isSpaceJs sp2)"
proof -
  from assms obtain s1 s2 s3 s4 rest where
    1: "mDigitsN 10 line = Some (d1, s1)" and 2: "mSpaces1 s1 = Some s2" and
    3: "mDigitsN 5 s2 = Some (d2, s3)" and 4: "mSpaces1 s3 = Some s4" and
    5: "s4 = flag # rest" and 6: "flag = CHR ''n'' \<or> flag = CHR ''f''"
    by (auto simp: reXrefEntry_def split: option.splits list.splits if_splits)
  from 2 obtain sp1 where a: "s1 = sp1 @ s2" "sp1 \<noteq> []" "list_all isSpaceJs sp1"
    using mSpaces1_shape by blast
  from 4 obtain sp2 where b: "s3 = sp2 @ s4" "sp2 \<noteq> []" "list_all isSpaceJs sp2"
    using mSpaces1_shape by blast
  have "line = d1 @ sp1 @ d2 @ sp2 @ flag # rest"
    using mDigitsN_shape [OF 1] mDigitsN_shape [OF 3] a(1) b(1) 5 by simp
  then show ?thesis
    using mDigitsN_shape [OF 1] mDigitsN_shape [OF 3] 6 a(2,3) b(2,3) by blast
qed

lemma classicEntry_changes:
  "classicEntry line m k \<noteq> m \<Longrightarrow> \<exists>d1 d2. reXrefEntry line = Some (d1, d2, CHR ''n'')"
  by (auto simp: classicEntry_def split: option.splits if_splits)

lemma chainEntry_changes:
  "chainEntry line m ko \<noteq> m \<Longrightarrow> \<exists>d1 d2. reXrefEntry line = Some (d1, d2, CHR ''n'')"
  by (auto simp: chainEntry_def split: option.splits if_splits)

text \<open>
  C8. A line that holds ten digits, one space, five digits, one space and the flag
  \<^verbatim>\<open>n\<close> or \<^verbatim>\<open>f\<close> is parsed into its offset, its generation and its flag. With the
  flag \<^verbatim>\<open>n\<close> the single-table parser records the entry under the object number,
  and the builder of the \<^verbatim>\<open>/Prev\<close> chain records it unless the map has the number;
  with the flag \<^verbatim>\<open>f\<close> both leave the map as it is. A line changes the map of
  either only if it matches with the flag \<^verbatim>\<open>n\<close>, and a line that matches starts
  with ten digits, white space, five digits, white space and the flag (a run of white
  space is read where the format has one space).
\<close>

theorem classic_entry_fixed_width:
  "(isDigits 10 ds \<and> isDigits 5 gs \<and> (flag = CHR ''n'' \<or> flag = CHR ''f'')
      \<longrightarrow> reXrefEntry (fixedWidthEntry ds gs flag @ rest) = Some (ds, gs, flag))
 \<and> (isDigits 10 ds \<and> isDigits 5 gs
      \<longrightarrow> classicEntry (fixedWidthEntry ds gs (CHR ''n'') @ rest) m k
            = m(k \<mapsto> \<lparr>offset = natOfDigits ds, generation = natOfDigits gs\<rparr>)
        \<and> chainEntry (fixedWidthEntry ds gs (CHR ''n'') @ rest) m (Some k)
            = (if m k \<noteq> None then m else m(k \<mapsto> \<lparr>offset = natOfDigits ds, generation = natOfDigits gs\<rparr>))
        \<and> classicEntry (fixedWidthEntry ds gs (CHR ''f'') @ rest) m k = m
        \<and> chainEntry (fixedWidthEntry ds gs (CHR ''f'') @ rest) m ko = m)
 \<and> (classicEntry line m k \<noteq> m \<longrightarrow> (\<exists>d1 d2. reXrefEntry line = Some (d1, d2, CHR ''n'')))
 \<and> (chainEntry line m ko \<noteq> m \<longrightarrow> (\<exists>d1 d2. reXrefEntry line = Some (d1, d2, CHR ''n'')))
 \<and> (reXrefEntry line = Some (e1, e2, fl)
      \<longrightarrow> isDigits 10 e1 \<and> isDigits 5 e2 \<and> (fl = CHR ''n'' \<or> fl = CHR ''f'')
        \<and> (\<exists>sp1 sp2 tl. line = e1 @ sp1 @ e2 @ sp2 @ fl # tl
              \<and> sp1 \<noteq> [] \<and> list_all isSpaceJs sp1 \<and> sp2 \<noteq> [] \<and> list_all isSpaceJs sp2))"
proof (intro conjI impI)
  assume a: "isDigits 10 ds \<and> isDigits 5 gs \<and> (flag = CHR ''n'' \<or> flag = CHR ''f'')"
  then show "reXrefEntry (fixedWidthEntry ds gs flag @ rest) = Some (ds, gs, flag)"
    by (intro reXrefEntry_fixedWidth) simp_all
next
  assume a: "isDigits 10 ds \<and> isDigits 5 gs"
  then have n: "reXrefEntry (fixedWidthEntry ds gs (CHR ''n'') @ rest) = Some (ds, gs, CHR ''n'')"
    and f: "reXrefEntry (fixedWidthEntry ds gs (CHR ''f'') @ rest) = Some (ds, gs, CHR ''f'')"
    by (simp_all add: reXrefEntry_fixedWidth)
  show "classicEntry (fixedWidthEntry ds gs (CHR ''n'') @ rest) m k
            = m(k \<mapsto> \<lparr>offset = natOfDigits ds, generation = natOfDigits gs\<rparr>)"
    by (simp add: classicEntry_def n)
  show "chainEntry (fixedWidthEntry ds gs (CHR ''n'') @ rest) m (Some k)
            = (if m k \<noteq> None then m else m(k \<mapsto> \<lparr>offset = natOfDigits ds, generation = natOfDigits gs\<rparr>))"
    by (simp add: chainEntry_def n)
  show "classicEntry (fixedWidthEntry ds gs (CHR ''f'') @ rest) m k = m"
    by (simp add: classicEntry_def f)
  show "chainEntry (fixedWidthEntry ds gs (CHR ''f'') @ rest) m ko = m"
    by (simp add: chainEntry_def f)
next
  assume "classicEntry line m k \<noteq> m"
  then show "\<exists>d1 d2. reXrefEntry line = Some (d1, d2, CHR ''n'')" by (rule classicEntry_changes)
next
  assume "chainEntry line m ko \<noteq> m"
  then show "\<exists>d1 d2. reXrefEntry line = Some (d1, d2, CHR ''n'')" by (rule chainEntry_changes)
next
  assume a: "reXrefEntry line = Some (e1, e2, fl)"
  show "isDigits 10 e1" "isDigits 5 e2" "fl = CHR ''n'' \<or> fl = CHR ''f''"
    using reXrefEntry_shape [OF a] by simp_all
  show "\<exists>sp1 sp2 tl. line = e1 @ sp1 @ e2 @ sp2 @ fl # tl
              \<and> sp1 \<noteq> [] \<and> list_all isSpaceJs sp1 \<and> sp2 \<noteq> [] \<and> list_all isSpaceJs sp2"
    using reXrefEntry_shape [OF a] by simp
qed

lemma entry_digits: "isDigits 10 ''0000000017'' \<and> isDigits 5 ''00000'' \<and> isDigits 5 ''65535''"
  by code_simp

lemma entry_values: "natOfDigits ''0000000017'' = 17 \<and> natOfDigits ''00000'' = 0"
  by code_simp

theorem classic_entry_fixed_width_witness:
  "reXrefEntry ''0000000017 00000 n '' = Some (''0000000017'', ''00000'', CHR ''n'')
 \<and> classicEntry ''0000000017 00000 n '' Map.empty 3 3 = Some \<lparr>offset = 17, generation = 0\<rparr>
 \<and> chainEntry ''0000000017 00000 n '' [3 \<mapsto> \<lparr>offset = 9, generation = 0\<rparr>] (Some 3) 3
      = Some \<lparr>offset = 9, generation = 0\<rparr>
 \<and> chainEntry ''0000000017 00000 n '' Map.empty (Some 3) 3 = Some \<lparr>offset = 17, generation = 0\<rparr>
 \<and> classicEntry ''0000000017 65535 f '' Map.empty 3 3 = None
 \<and> chainEntry ''0000000017 65535 f '' Map.empty (Some 3) 3 = None
 \<and> classicEntry ''0000000017 00000 n '' Map.empty 3 \<noteq> Map.empty"
proof -
  have l1: "''0000000017 00000 n '' = fixedWidthEntry ''0000000017'' ''00000'' (CHR ''n'') @ '' ''"
    and l2: "''0000000017 65535 f '' = fixedWidthEntry ''0000000017'' ''65535'' (CHR ''f'') @ '' ''"
    by (simp_all add: fixedWidthEntry_def)
  note a = classic_entry_fixed_width [of "''0000000017''" "''00000''" "CHR ''n''" "'' ''" Map.empty 3 None "[]"]
  note b = classic_entry_fixed_width [of "''0000000017''" "''00000''" "CHR ''n''" "'' ''"
      "[3 \<mapsto> \<lparr>offset = 9, generation = 0\<rparr>]" 3 None "[]"]
  note c = classic_entry_fixed_width [of "''0000000017''" "''65535''" "CHR ''f''" "'' ''" Map.empty 3 "Some 3"
      "''0000000017 00000 n ''"]
  have 1: "reXrefEntry ''0000000017 00000 n '' = Some (''0000000017'', ''00000'', CHR ''n'')"
    using a entry_digits unfolding l1 by simp
  have 2: "classicEntry ''0000000017 00000 n '' Map.empty 3 = [3 \<mapsto> \<lparr>offset = 17, generation = 0\<rparr>]"
    and 4: "chainEntry ''0000000017 00000 n '' Map.empty (Some 3) = [3 \<mapsto> \<lparr>offset = 17, generation = 0\<rparr>]"
    using a entry_digits entry_values unfolding l1 by simp_all
  have 3: "chainEntry ''0000000017 00000 n '' [3 \<mapsto> \<lparr>offset = 9, generation = 0\<rparr>] (Some 3)
      = [3 \<mapsto> \<lparr>offset = 9, generation = 0\<rparr>]"
    using b entry_digits unfolding l1 by simp
  have 5: "classicEntry ''0000000017 65535 f '' Map.empty 3 = Map.empty"
    and 6: "chainEntry ''0000000017 65535 f '' Map.empty (Some 3) = Map.empty"
    using c entry_digits unfolding l2 by simp_all
  have 7: "classicEntry ''0000000017 00000 n '' Map.empty 3 \<noteq> Map.empty"
    unfolding 2 by (metis map_upd_nonempty)
  show ?thesis using 1 7 by (simp add: 2 3 4 5 6)
qed

subsection \<open>The chain of \<^verbatim>\<open>/Prev\<close>\<close>

lemma chainEntry_keeps: "m \<subseteq>\<^sub>m chainEntry line m ko"
  by (auto simp: chainEntry_def map_le_def split: option.splits)

lemma chainEntries_keeps: "m \<subseteq>\<^sub>m snd (chainEntries buffer firstObj i n (pos, m))"
proof (induction n arbitrary: i pos m)
  case 0
  show ?case by simp
next
  case (Suc n)
  have "m \<subseteq>\<^sub>m chainEntry (readLineAscii buffer pos) m (map_option (\<lambda>f. f + int i) firstObj)"
    by (rule chainEntry_keeps)
  also have "\<dots> \<subseteq>\<^sub>m snd (chainEntries buffer firstObj (Suc i) n
      (advanceToNextLine buffer pos,
       chainEntry (readLineAscii buffer pos) m (map_option (\<lambda>f. f + int i) firstObj)))"
    by (rule Suc.IH)
  finally show ?case by simp
qed

lemma chainSections_keeps: "m \<subseteq>\<^sub>m snd (chainSections buffer pos m)"
proof (induction buffer pos m rule: chainSections.induct)
  case (1 buffer pos m)
  show ?case
  proof (cases "pos < length buffer \<and> \<not> peekKeyword buffer pos ''trailer''
                \<and> readLineAscii buffer pos \<noteq> []
                \<and> \<not> length (splitSpaces (trim (readLineAscii buffer pos))) < 2")
    case False
    then show ?thesis by (subst chainSections.simps) (auto simp: Let_def)
  next
    case True
    define parts where "parts = splitSpaces (trim (readLineAscii buffer pos))"
    define st where "st = chainEntries buffer (parseInt (parts ! 0)) 0
        (case parseInt (parts ! 1) of None \<Rightarrow> 0 | Some c \<Rightarrow> nat c) (advanceToNextLine buffer pos, m)"
    have eq: "chainSections buffer pos m = chainSections buffer (skipWhitespace buffer (fst st)) (snd st)"
      using True by (subst chainSections.simps) (simp add: Let_def st_def parts_def)
    have "m \<subseteq>\<^sub>m snd st" unfolding st_def by (rule chainEntries_keeps)
    also have "snd st \<subseteq>\<^sub>m snd (chainSections buffer (skipWhitespace buffer (fst st)) (snd st))"
      using True by (intro "1.IH" [OF _ _ refl _ refl _ refl refl st_def [unfolded parts_def]]) (simp_all add: parts_def)
    finally show ?thesis by (simp add: eq)
  qed
qed

lemma dictScan_pos: "s \<noteq> [] \<Longrightarrow> 0 < dictScan depth s"
  by (cases "(depth, s)" rule: dictScan.cases) auto

lemma dictStringAt_nonempty: "startsDict buffer pos \<Longrightarrow> fst (dictStringAt buffer pos) \<noteq> []"
proof -
  assume "startsDict buffer pos"
  then have d: "drop pos buffer \<noteq> []"
    by (auto simp: startsDict_def byteAt_def)
  then have "0 < dictScan 0 (drop pos buffer)" by (rule dictScan_pos)
  with d show ?thesis by (simp add: dictStringAt_def Let_def slice_def)
qed

lemma prevChain_keeps:
  "prevChain buffer (m, t, offs, h) = (m', t', offs', h')
     \<Longrightarrow> m \<subseteq>\<^sub>m m' \<and> (t \<noteq> [] \<longrightarrow> t' = t) \<and> (h \<le> 10 \<longrightarrow> h' \<le> 10)"
proof (induction buffer "(m, t, offs, h)" arbitrary: m t offs h rule: prevChain.induct)
  case (1 buffer m t offs h)
  define st where "st = chainSections buffer (skipWhitespace buffer (offs + 4)) m"
  define pos2 where "pos2 = skipWhitespace buffer (fst st + length ''trailer'')"
  define dictStr where "dictStr = fst (dictStringAt buffer pos2)"
  define t1 where "t1 = (if t \<noteq> [] then t else dictStr)"
  have m1: "m \<subseteq>\<^sub>m snd st" unfolding st_def by (rule chainSections_keeps)
  show ?case
  proof (cases "0 < offs \<and> h < 10 \<and> readAscii buffer offs 4 = ''xref'' \<and> peekKeyword buffer (fst st) ''trailer''
                \<and> startsDict buffer pos2
                \<and> (\<exists>prev. parseIntFromDict dictStr ''Prev'' = Some prev \<and> \<not> (prev \<le> 0 \<or> length buffer \<le> prev))")
    case False
    then show ?thesis
      using "1.prems" m1
      by (subst (asm) prevChain.simps)
         (auto simp: Let_def st_def pos2_def dictStr_def split: option.splits if_splits)
  next
    case True
    then obtain prev where pv: "parseIntFromDict dictStr ''Prev'' = Some prev"
      and ok: "\<not> (prev \<le> 0 \<or> length buffer \<le> prev)" by blast
    have eq: "prevChain buffer (m, t, offs, h) = prevChain buffer (snd st, t1, prev, h + 1)"
      using True pv ok
      by (subst prevChain.simps) (simp add: Let_def st_def pos2_def dictStr_def t1_def)
    have ih: "snd st \<subseteq>\<^sub>m m' \<and> (t1 \<noteq> [] \<longrightarrow> t' = t1) \<and> (h + 1 \<le> 10 \<longrightarrow> h' \<le> 10)"
      using True pv ok "1.prems"
      by (intro "1.hyps" [OF _ _ st_def refl refl _ pos2_def [unfolded length_append] _ dictStr_def t1_def pv]) (simp_all add: eq)
    then show ?thesis using m1 True by (auto simp: t1_def intro: map_le_trans)
  qed
qed

lemma mergeFirstWins_keeps: "merged \<subseteq>\<^sub>m mergeFirstWins merged m"
  by (auto simp: map_le_def mergeFirstWins_def)

lemma streamChain_keeps:
  "streamChain inflate buffer (xm, prev, h) = Inr (xm', prev', h')
     \<Longrightarrow> objToOffset xm \<subseteq>\<^sub>m objToOffset xm' \<and> objToObjStm xm \<subseteq>\<^sub>m objToObjStm xm'
         \<and> (h \<le> 10 \<longrightarrow> h' \<le> 10)"
proof (induction inflate buffer "(xm, prev, h)" arbitrary: xm prev h rule: streamChain.induct)
  case (1 inflate buffer xm prev h)
  show ?case
  proof (cases "\<exists>pv xo mm. prev = Some pv \<and> 0 < pv \<and> pv < length buffer \<and> h < 10
                  \<and> readAscii buffer pv 4 \<noteq> ''xref'' \<and> readStreamObject buffer pv = Inr xo
                  \<and> hasType ''XRef'' (dictString xo) \<and> buildXrefMapFromXrefStream inflate xo = Inr mm")
    case False
    have "(objToOffset xm' = objToOffset xm
            \<or> (\<exists>om. objToOffset xm' = mergeFirstWins (objToOffset xm) om))
          \<and> objToObjStm xm' = objToObjStm xm \<and> h' = h"
      using "1.prems" False
      by (subst (asm) streamChain.simps)
         (cases prev; cases "readStreamObject buffer (the prev)";
          cases "buildClassicXrefOffsetsFollowingPrevChain buffer (the prev)";
          cases "buildXrefMapFromXrefStream inflate (projr (readStreamObject buffer (the prev)))";
          auto split: if_splits)
    then show ?thesis using mergeFirstWins_keeps [of "objToOffset xm"] by auto
  next
    case True
    then obtain pv xo mm where pv: "prev = Some pv" and g: "\<not> \<not> (0 < pv \<and> pv < length buffer \<and> h < 10)"
      and nx: "readAscii buffer pv 4 \<noteq> ''xref''" and xo: "readStreamObject buffer pv = Inr xo"
      and ty: "\<not> \<not> hasType ''XRef'' (dictString xo)" and mm: "buildXrefMapFromXrefStream inflate xo = Inr mm"
      by blast
    define xm1 where "xm1 = \<lparr>objToOffset = mergeFirstWins (objToOffset xm) (objToOffset mm),
                             objToObjStm = mergeFirstWins (objToObjStm xm) (objToObjStm mm)\<rparr>"
    have eq: "streamChain inflate buffer (xm, prev, h)
              = streamChain inflate buffer (xm1, parseIntFromDict (dictString xo) ''Prev'', h + 1)"
      using pv g nx xo ty mm by (subst streamChain.simps) (simp add: xm1_def)
    have ih: "objToOffset xm1 \<subseteq>\<^sub>m objToOffset xm' \<and> objToObjStm xm1 \<subseteq>\<^sub>m objToObjStm xm'
              \<and> (h + 1 \<le> 10 \<longrightarrow> h' \<le> 10)"
      using "1.hyps" [OF pv g nx ty, of mm] "1.prems" unfolding eq xm1_def by simp
    have "objToOffset xm \<subseteq>\<^sub>m objToOffset xm1" "objToObjStm xm \<subseteq>\<^sub>m objToObjStm xm1"
      by (simp_all add: xm1_def mergeFirstWins_keeps)
    then show ?thesis using ih g by (auto intro: map_le_trans)
  qed
qed

lemma buildClassicXrefOffsetsFollowingPrevChain_first:
  assumes "buildClassicXrefOffsetsFollowingPrevChain buffer start = Inr (om, tr)"
  shows "snd (chainSections buffer (skipWhitespace buffer (start + 4)) Map.empty) \<subseteq>\<^sub>m om
         \<and> tr = firstTrailer buffer start"
proof -
  define st where "st = chainSections buffer (skipWhitespace buffer (start + 4)) Map.empty"
  define pos2 where "pos2 = skipWhitespace buffer (fst st + length ''trailer'')"
  define dictStr where "dictStr = fst (dictStringAt buffer pos2)"
  have ft: "firstTrailer buffer start = dictStr"
    by (simp add: firstTrailer_def Let_def dictStr_def pos2_def st_def)
  from assms obtain offs h where r: "prevChain buffer (Map.empty, [], start, 0) = (om, tr, offs, h)"
    and tr: "tr \<noteq> []"
    by (auto simp: buildClassicXrefOffsetsFollowingPrevChain_def split: prod.splits if_splits)
  have sd: "startsDict buffer pos2
            \<and> ((om = snd st \<and> tr = dictStr)
               \<or> (\<exists>prev. prevChain buffer (snd st, dictStr, prev, 1) = (om, tr, offs, h)))"
    using r tr
    by (subst (asm) prevChain.simps)
       (auto simp: Let_def st_def pos2_def dictStr_def split: option.splits if_splits)
  then have ne: "dictStr \<noteq> []" unfolding dictStr_def by (simp add: dictStringAt_nonempty)
  from sd have "snd st \<subseteq>\<^sub>m om \<and> tr = dictStr"
    using prevChain_keeps [of buffer "snd st" dictStr _ 1 om tr offs h] ne by auto
  then show ?thesis by (simp add: ft st_def)
qed

lemma buildXrefMapFromXrefStreamChain_first:
  assumes "buildXrefMapFromXrefStreamChain inflate buffer firstXrefObj = Inr xm"
  shows "\<exists>m0. buildXrefMapFromXrefStream inflate firstXrefObj = Inr m0
           \<and> objToOffset m0 \<subseteq>\<^sub>m objToOffset xm \<and> objToObjStm m0 \<subseteq>\<^sub>m objToObjStm xm"
proof (cases "buildXrefMapFromXrefStream inflate firstXrefObj")
  case (Inl e)
  with assms show ?thesis by (simp add: buildXrefMapFromXrefStreamChain_def)
next
  case (Inr m0)
  show ?thesis
  proof (cases "streamChain inflate buffer (m0, parseIntFromDict (dictString firstXrefObj) ''Prev'', 0)")
    case (Inl e)
    with assms Inr show ?thesis by (simp add: buildXrefMapFromXrefStreamChain_def)
  next
    case r: (Inr res)
    obtain xm' prev' h' where res: "res = (xm', prev', h')" by (cases res)
    from assms Inr r res have "xm' = xm" by (simp add: buildXrefMapFromXrefStreamChain_def)
    with streamChain_keeps [OF r [unfolded res]] Inr show ?thesis by simp
  qed
qed

text \<open>
  What holds of each loop and of each map by itself. Each turn of the two loops that
  follow \<^verbatim>\<open>/Prev\<close> keeps every entry that its map has: the map of the classic chain, and
  each of the two maps of the chain of cross-reference streams, only grows. The classic
  chain keeps the trailer dictionary it has, so the one it returns is the first it read,
  and the entries of the table it read first are in its result; the map of the first
  cross-reference stream is in the result of the other chain. Neither loop counts more
  than 10 hops of its own.
\<close>

theorem prev_chain_keeps_entries:
  "(prevChain buffer (m, t, offs, h) = (m', t', offs', h')
      \<longrightarrow> m \<subseteq>\<^sub>m m' \<and> (t \<noteq> [] \<longrightarrow> t' = t) \<and> (h \<le> 10 \<longrightarrow> h' \<le> 10))
 \<and> (buildClassicXrefOffsetsFollowingPrevChain buffer start = Inr (om, tr)
      \<longrightarrow> snd (chainSections buffer (skipWhitespace buffer (start + 4)) Map.empty) \<subseteq>\<^sub>m om
          \<and> tr = firstTrailer buffer start)
 \<and> (streamChain inflate buffer (xm, prev, h) = Inr (xm', prev', h')
      \<longrightarrow> objToOffset xm \<subseteq>\<^sub>m objToOffset xm' \<and> objToObjStm xm \<subseteq>\<^sub>m objToObjStm xm'
          \<and> (h \<le> 10 \<longrightarrow> h' \<le> 10))
 \<and> (buildXrefMapFromXrefStreamChain inflate buffer firstXrefObj = Inr xmr
      \<longrightarrow> (\<exists>m0. buildXrefMapFromXrefStream inflate firstXrefObj = Inr m0
             \<and> objToOffset m0 \<subseteq>\<^sub>m objToOffset xmr \<and> objToObjStm m0 \<subseteq>\<^sub>m objToObjStm xmr))"
  using prevChain_keeps [of buffer m t offs h m' t' offs' h']
    buildClassicXrefOffsetsFollowingPrevChain_first [of buffer start om tr]
    streamChain_keeps [of inflate buffer xm prev h xm' prev' h']
    buildXrefMapFromXrefStreamChain_first [of inflate buffer firstXrefObj xmr]
  by blast

lemma cyclicPrev_seen:
  "(case prevChain cyclicPrev (seenOffsets, ''<< /Root 1 0 R >>'', 1, 0) of
      (m, t, offs, h) \<Rightarrow> (m 1, t, offs, h))
   = (Some \<lparr>offset = 9, generation = 0\<rparr>, ''<< /Root 1 0 R >>'', 1, 10)"
  by code_simp

lemma cyclicPrev_fresh:
  "(case prevChain cyclicPrev (Map.empty, [], 1, 0) of (m, t, offs, h) \<Rightarrow> (m 1, t, offs, h))
   = (Some \<lparr>offset = 50, generation = 0\<rparr>, ''<< /Size 2 /Prev 1 >>'', 1, 10)"
  by code_simp

text \<open>
  An object that the latest revision has in an object stream, and an earlier table at an
  offset: the chain leaves the first entry where it is and puts the second into the other
  map, where \<^verbatim>\<open>getObjectDictViaXrefMap\<close> looks first.
\<close>

lemma cyclicPrev_stream:
  "map_sum id (\<lambda>(xm, p, h). (objToOffset xm 1, objToObjStm xm 1, p, h))
     (streamChain Some cyclicPrev (seenXmap, Some 1, 0))
   = Inr (Some \<lparr>offset = 50, generation = 0\<rparr>, Some \<lparr>objstm = 7, index = 0\<rparr>, Some 1, 0)"
  by code_simp

theorem prev_chain_keeps_entries_example:
  "seenOffsets 1 = Some \<lparr>offset = 9, generation = 0\<rparr>
 \<and> fst (prevChain cyclicPrev (seenOffsets, ''<< /Root 1 0 R >>'', 1, 0)) 1 = Some \<lparr>offset = 9, generation = 0\<rparr>
 \<and> fst (snd (prevChain cyclicPrev (seenOffsets, ''<< /Root 1 0 R >>'', 1, 0))) = ''<< /Root 1 0 R >>''
 \<and> snd (snd (snd (prevChain cyclicPrev (seenOffsets, ''<< /Root 1 0 R >>'', 1, 0)))) = 10
 \<and> fst (prevChain cyclicPrev (Map.empty, [], 1, 0)) 1 = Some \<lparr>offset = 50, generation = 0\<rparr>"
proof -
  let ?r = "prevChain cyclicPrev (seenOffsets, ''<< /Root 1 0 R >>'', 1, 0)"
  have e: "?r = (fst ?r, fst (snd ?r), fst (snd (snd ?r)), snd (snd (snd ?r)))" by simp
  note t = prev_chain_keeps_entries [of cyclicPrev seenOffsets "''<< /Root 1 0 R >>''" 1 0
      "fst ?r" "fst (snd ?r)" "fst (snd (snd ?r))" "snd (snd (snd ?r))",
      THEN conjunct1, rule_format, OF e]
  have s: "seenOffsets 1 = Some \<lparr>offset = 9, generation = 0\<rparr>" by (simp add: seenOffsets_def)
  have 1: "fst ?r 1 = Some \<lparr>offset = 9, generation = 0\<rparr>"
    using t [THEN conjunct1] s by (auto simp: map_le_def dom_def)
  have 2: "fst (snd ?r) = ''<< /Root 1 0 R >>''"
    using t [THEN conjunct2, THEN conjunct1] by simp
  have 3: "snd (snd (snd ?r)) = 10"
    using cyclicPrev_seen by (simp split: prod.splits)
  have 4: "fst (prevChain cyclicPrev (Map.empty, [], 1, 0)) 1 = Some \<lparr>offset = 50, generation = 0\<rparr>"
    using cyclicPrev_fresh by (simp split: prod.splits)
  show ?thesis using s 1 2 3 4 by blast
qed

text \<open>
  The loop over the cross-reference streams hands a classic table over to
  \<^verbatim>\<open>buildClassicXrefOffsetsFollowingPrevChain\<close>, which counts its hops from 0 whatever
  the loop has counted, and takes from its result the object numbers that \<open>objToOffset\<close>
  does not have, whatever \<open>objToObjStm\<close> has.
\<close>

lemma streamChain_hands_over:
  assumes "0 < pv" and "pv < length buffer" and "h < 10" and "readAscii buffer pv 4 = ''xref''"
  shows "streamChain inflate buffer (xm, Some pv, h)
           = bindR (buildClassicXrefOffsetsFollowingPrevChain buffer pv) (\<lambda>(objectOffsets, latestTrailerDict).
               Inr (xm\<lparr>objToOffset := mergeFirstWins (objToOffset xm) objectOffsets\<rparr>, Some pv, h))"
  using assms by (subst streamChain.simps) simp

lemma hybridFile_startxref:
  "findStartXref hybridFile = Some 538
 \<and> parseStartXrefOffset hybridFile 538 = Inr 403
 \<and> hasType ''XRef'' ''<< /Type /XRef /Size 7 /W [1 2 1] /Index [2 1 4 3] /Root 1 0 R /Prev 162 /Length 16 >>''
 \<and> parseIndirectRefFromDict ''<< /Type /XRef /Size 7 /W [1 2 1] /Index [2 1 4 3] /Root 1 0 R /Prev 162 /Length 16 >>'' ''Root'' = Some \<lparr>obj = 1, gen = 0\<rparr>"
  by code_simp

lemma hybridFile_xref:
  "readStreamObject hybridFile 403
     = Inr \<lparr>dictString = ''<< /Type /XRef /Size 7 /W [1 2 1] /Index [2 1 4 3] /Root 1 0 R /Prev 162 /Length 16 >>'',
         streamBuffer = [CHR 0x02, CHR 0x00, CHR 0x05, CHR 0x00, CHR 0x02, CHR 0x00, CHR 0x05, CHR 0x01,
                         CHR 0x01, CHR 0x01, CHR 0x31, CHR 0x00, CHR 0x01, CHR 0x01, CHR 0x93, CHR 0x00]\<rparr>"
  by code_simp

lemma hybridFile_update:
  "map_sum id (\<lambda>xm. (objToObjStm xm 2, objToOffset xm 2, getObjectDictViaXrefMap hybridInflate hybridFile xm 2))
     (buildXrefMapFromXrefStream hybridInflate
        \<lparr>dictString = ''<< /Type /XRef /Size 7 /W [1 2 1] /Index [2 1 4 3] /Root 1 0 R /Prev 162 /Length 16 >>'',
         streamBuffer = [CHR 0x02, CHR 0x00, CHR 0x05, CHR 0x00, CHR 0x02, CHR 0x00, CHR 0x05, CHR 0x01,
                         CHR 0x01, CHR 0x01, CHR 0x31, CHR 0x00, CHR 0x01, CHR 0x01, CHR 0x93, CHR 0x00]\<rparr>)
   = Inr (Some \<lparr>objstm = 5, index = 0\<rparr>, None, Inr ''<< /Type /Pages /Kids [3 0 R 4 0 R] /Count 2 >>'')"
  by code_simp

lemma hybridFile_chain:
  "map_sum id (\<lambda>xm. (objToObjStm xm 2, objToOffset xm 2, getObjectDictViaXrefMap hybridInflate hybridFile xm 2,
                      traversePageTreeWithXrefStream 10 hybridInflate hybridFile xm \<lparr>obj = 1, gen = 0\<rparr>))
     (buildXrefMapFromXrefStreamChain hybridInflate hybridFile
        \<lparr>dictString = ''<< /Type /XRef /Size 7 /W [1 2 1] /Index [2 1 4 3] /Root 1 0 R /Prev 162 /Length 16 >>'',
         streamBuffer = [CHR 0x02, CHR 0x00, CHR 0x05, CHR 0x00, CHR 0x02, CHR 0x00, CHR 0x05, CHR 0x01,
                         CHR 0x01, CHR 0x01, CHR 0x31, CHR 0x00, CHR 0x01, CHR 0x01, CHR 0x93, CHR 0x00]\<rparr>)
   = Inr (Some \<lparr>objstm = 5, index = 0\<rparr>, Some \<lparr>offset = 58, generation = 0\<rparr>,
          Inr ''<< /Type /Pages /Kids [3 0 R] /Count 1 >>'', Inr 1)"
  by code_simp

lemma hybridFile_traversal: "countPagesViaXrefStreamTraversal 10 hybridInflate hybridFile = Inr 1"
proof -
  have "bindR (buildXrefMapFromXrefStreamChain hybridInflate hybridFile
                 \<lparr>dictString = ''<< /Type /XRef /Size 7 /W [1 2 1] /Index [2 1 4 3] /Root 1 0 R /Prev 162 /Length 16 >>'',
         streamBuffer = [CHR 0x02, CHR 0x00, CHR 0x05, CHR 0x00, CHR 0x02, CHR 0x00, CHR 0x05, CHR 0x01,
                         CHR 0x01, CHR 0x01, CHR 0x31, CHR 0x00, CHR 0x01, CHR 0x01, CHR 0x93, CHR 0x00]\<rparr>)
          (\<lambda>xm. traversePageTreeWithXrefStream 10 hybridInflate hybridFile xm \<lparr>obj = 1, gen = 0\<rparr>) = Inr 1"
    using hybridFile_chain
    by (cases "buildXrefMapFromXrefStreamChain hybridInflate hybridFile
                 \<lparr>dictString = ''<< /Type /XRef /Size 7 /W [1 2 1] /Index [2 1 4 3] /Root 1 0 R /Prev 162 /Length 16 >>'',
         streamBuffer = [CHR 0x02, CHR 0x00, CHR 0x05, CHR 0x00, CHR 0x02, CHR 0x00, CHR 0x05, CHR 0x01,
                         CHR 0x01, CHR 0x01, CHR 0x31, CHR 0x00, CHR 0x01, CHR 0x01, CHR 0x93, CHR 0x00]\<rparr>") simp_all
  then show ?thesis
    using hybridFile_startxref
    by (simp add: countPagesViaXrefStreamTraversal_def hybridFile_xref)
qed

text \<open>
  C4, on the file with an incremental update. The cross-reference stream of the update
  has the pages node 2 in the object stream 5, and read by that map alone the node has
  two kids. The chain then reads the classic table of the first revision and enters its
  offset for the object 2, which the update has replaced: the merged map has both
  entries, \<^verbatim>\<open>getObjectDictViaXrefMap\<close> reads the node of the first revision, the
  traversal counts one page, and that is the count of the file, whose latest revision
  has two pages.
\<close>

theorem hybrid_update_earlier_revision_wins:
  "bindR (readStreamObject hybridFile 403) (\<lambda>xo.
     map_sum id (\<lambda>xm. (objToObjStm xm 2, objToOffset xm 2, getObjectDictViaXrefMap hybridInflate hybridFile xm 2))
       (buildXrefMapFromXrefStream hybridInflate xo))
   = Inr (Some \<lparr>objstm = 5, index = 0\<rparr>, None, Inr ''<< /Type /Pages /Kids [3 0 R 4 0 R] /Count 2 >>'')
 \<and> bindR (readStreamObject hybridFile 403) (\<lambda>xo.
     map_sum id (\<lambda>xm. (objToObjStm xm 2, objToOffset xm 2, getObjectDictViaXrefMap hybridInflate hybridFile xm 2,
                         traversePageTreeWithXrefStream 10 hybridInflate hybridFile xm \<lparr>obj = 1, gen = 0\<rparr>))
       (buildXrefMapFromXrefStreamChain hybridInflate hybridFile xo))
   = Inr (Some \<lparr>objstm = 5, index = 0\<rparr>, Some \<lparr>offset = 58, generation = 0\<rparr>,
          Inr ''<< /Type /Pages /Kids [3 0 R] /Count 1 >>'', Inr 1)
 \<and> countPdfPagesSync 10 hybridInflate hybridFile = Inr 1"
proof -
  have "countPdfPagesSync 10 hybridInflate hybridFile = Inr 1"
    by (simp add: countPdfPagesSync_def tryPositive_def hybridFile_traversal)
  then show ?thesis
    by (simp only: hybridFile_xref bindR_simps hybridFile_update hybridFile_chain simp_thms)
qed

subsection \<open>The count of a node\<close>

lemma kidsLoopMap_step:
  "kidsLoopMap recur buffer objOffsets (k # ks) acc
     = bindR (kidValueMap recur buffer objOffsets k) (\<lambda>n. kidsLoopMap recur buffer objOffsets ks (acc + n))"
  by (cases "objOffsets (int (obj k))"; cases "readIndirectObject buffer (offset (the (objOffsets (int (obj k)))))")
     (simp_all add: kidValueMap_def)

lemma kidsLoopMap_sum:
  "\<forall>k\<in>set kids. kidValueMap recur buffer objOffsets k = Inr (f k)
     \<Longrightarrow> kidsLoopMap recur buffer objOffsets kids acc = Inr (acc + sum_list (map f kids))"
proof (induction kids arbitrary: acc)
  case Nil
  show ?case by simp
next
  case (Cons k ks)
  have "kidsLoopMap recur buffer objOffsets (k # ks) acc = kidsLoopMap recur buffer objOffsets ks (acc + f k)"
    using Cons.prems by (simp only: kidsLoopMap_step) simp
  also have "\<dots> = Inr (acc + f k + sum_list (map f ks))"
    using Cons.prems by (intro Cons.IH) simp
  finally show ?case by simp
qed

lemma kidsLoopMap_throws:
  "\<forall>k'\<in>set ks1. kidValueMap recur buffer objOffsets k' = Inr (f k')
     \<Longrightarrow> kidValueMap recur buffer objOffsets k = Inl e
     \<Longrightarrow> kidsLoopMap recur buffer objOffsets (ks1 @ k # ks2) acc = Inl e"
proof (induction ks1 arbitrary: acc)
  case Nil
  then show ?case by (simp only: append_Nil kidsLoopMap_step) simp
next
  case (Cons a ks1)
  have "kidsLoopMap recur buffer objOffsets ((a # ks1) @ k # ks2) acc
          = kidsLoopMap recur buffer objOffsets (ks1 @ k # ks2) (acc + f a)"
    using Cons.prems(1) by (simp only: append_Cons kidsLoopMap_step) simp
  also have "\<dots> = Inl e"
    using Cons.prems by (intro Cons.IH) simp_all
  finally show ?case .
qed

lemma kidsOfMap_cases:
  "(parseKidsArray dict \<noteq> [] \<longrightarrow> kidsOfMap buffer objOffsets dict = Inr (parseKidsArray dict))
 \<and> (parseKidsArray dict = [] \<and> parseIndirectRefFromDict dict ''Kids'' = None
      \<longrightarrow> kidsOfMap buffer objOffsets dict = Inr [])
 \<and> (parseKidsArray dict = [] \<and> parseIndirectRefFromDict dict ''Kids'' = Some kidsRef
      \<and> objOffsets (int (obj kidsRef)) = None
      \<longrightarrow> kidsOfMap buffer objOffsets dict = Inl (Error ''Array object not found''))
 \<and> (parseKidsArray dict = [] \<and> parseIndirectRefFromDict dict ''Kids'' = Some kidsRef
      \<and> objOffsets (int (obj kidsRef)) = Some kidsEntry
      \<and> readAnyObjectContent buffer (offset kidsEntry) = Inl e
      \<longrightarrow> kidsOfMap buffer objOffsets dict = Inl e)
 \<and> (parseKidsArray dict = [] \<and> parseIndirectRefFromDict dict ''Kids'' = Some kidsRef
      \<and> objOffsets (int (obj kidsRef)) = Some kidsEntry
      \<and> readAnyObjectContent buffer (offset kidsEntry) = Inr arrStr
      \<longrightarrow> kidsOfMap buffer objOffsets dict = Inr (parseKidsArrayFromArrayString arrStr))"
  by (simp add: kidsOfMap_def Let_def getArrayContentViaOffsets_def)

lemma cntOrZero_cases:
  "cntOrZero None = 0
 \<and> (c < 2 ^ 53 \<longrightarrow> cntOrZero (Some c) = c)
 \<and> (2 ^ 1024 - 2 ^ 970 \<le> c \<longrightarrow> cntOrZero (Some c) = 0)"
proof -
  have "c < 2 ^ 53 \<Longrightarrow> isIntegerJs c"
  proof -
    assume "c < 2 ^ 53"
    moreover have "(2::nat) ^ 53 < 2 ^ 1024 - 2 ^ 970" by simp
    ultimately show ?thesis unfolding isIntegerJs_def by (rule less_trans)
  qed
  then show ?thesis by (auto simp: cntOrZero_def isIntegerJs_def)
qed

text \<open>
  C3, as the code has it. The node is in the map and can be read. A dictionary that
  matches \<^verbatim>\<open>/Type /Page\<close> gives 1, and one that matches neither \<^verbatim>\<open>/Type /Page\<close> nor
  \<^verbatim>\<open>/Type /Pages\<close> gives 0. For a pages node with no kids the result is \<^verbatim>\<open>/Count\<close>
  when that is a positive integer, and 0 otherwise. For a pages node with kids, each of
  which adds its value (nothing for a kid that the map does not have, 1 for a page, the
  count of the traversal for a pages node, nothing for another object), the result is the
  sum of the values when the sum is not 0, and otherwise again \<^verbatim>\<open>/Count\<close> when that is a
  positive integer, and 0. The traversal throws what the first kid that throws does, and
  what reading the kids throws: the kids are those of the inline array when it has any,
  none when \<^verbatim>\<open>/Kids\<close> is no reference either, and else those of the array object
  referred to, which throws when the map does not have that object or it cannot be read.
  The numbers are those of the source where it computes exactly: a \<^verbatim>\<open>/Count\<close> below
  \<open>2 ^ 53\<close> or read as \<^verbatim>\<open>Infinity\<close>, which is no integer and gives 0, and a sum below
  \<open>2 ^ 53\<close>.
\<close>

theorem traversePagesNodeMap_node:
  assumes "objOffsets (int (obj nodeRef)) = Some entry"
    and "readIndirectObject buffer (offset entry) = Inr dict"
  shows "(hasType ''Page'' dict
            \<longrightarrow> traversePagesNodeMap (Suc stack) buffer objOffsets nodeRef = Inr 1)
       \<and> (\<not> hasType ''Page'' dict \<and> \<not> hasType ''Pages'' dict
            \<longrightarrow> traversePagesNodeMap (Suc stack) buffer objOffsets nodeRef = Inr 0)
       \<and> (\<not> hasType ''Page'' dict \<and> hasType ''Pages'' dict \<and> kidsOfMap buffer objOffsets dict = Inr []
            \<and> exactCount (parseIntFromDict dict ''Count'')
            \<longrightarrow> traversePagesNodeMap (Suc stack) buffer objOffsets nodeRef
                  = Inr (cntOrZero (parseIntFromDict dict ''Count'')))
       \<and> (\<not> hasType ''Page'' dict \<and> hasType ''Pages'' dict \<and> kidsOfMap buffer objOffsets dict = Inr kids
            \<and> kids \<noteq> []
            \<and> (\<forall>k\<in>set kids. kidValueMap (traversePagesNodeMap stack buffer objOffsets) buffer objOffsets k = Inr (f k))
            \<and> sum_list (map f kids) < 2 ^ 53
            \<and> exactCount (parseIntFromDict dict ''Count'')
            \<longrightarrow> traversePagesNodeMap (Suc stack) buffer objOffsets nodeRef
                  = Inr (if sum_list (map f kids) \<noteq> 0 then sum_list (map f kids)
                         else cntOrZero (parseIntFromDict dict ''Count'')))
       \<and> (\<not> hasType ''Page'' dict \<and> hasType ''Pages'' dict
            \<and> kidsOfMap buffer objOffsets dict = Inr (ks1 @ k # ks2)
            \<and> (\<forall>k'\<in>set ks1. kidValueMap (traversePagesNodeMap stack buffer objOffsets) buffer objOffsets k' = Inr (f k'))
            \<and> kidValueMap (traversePagesNodeMap stack buffer objOffsets) buffer objOffsets k = Inl e
            \<longrightarrow> traversePagesNodeMap (Suc stack) buffer objOffsets nodeRef = Inl e)
       \<and> (\<not> hasType ''Page'' dict \<and> hasType ''Pages'' dict \<and> kidsOfMap buffer objOffsets dict = Inl e
            \<longrightarrow> traversePagesNodeMap (Suc stack) buffer objOffsets nodeRef = Inl e)
       \<and> (parseKidsArray dict \<noteq> [] \<longrightarrow> kidsOfMap buffer objOffsets dict = Inr (parseKidsArray dict))
       \<and> (parseKidsArray dict = [] \<and> parseIndirectRefFromDict dict ''Kids'' = None
            \<longrightarrow> kidsOfMap buffer objOffsets dict = Inr [])
       \<and> (parseKidsArray dict = [] \<and> parseIndirectRefFromDict dict ''Kids'' = Some kidsRef
            \<and> objOffsets (int (obj kidsRef)) = None
            \<longrightarrow> kidsOfMap buffer objOffsets dict = Inl (Error ''Array object not found''))
       \<and> (parseKidsArray dict = [] \<and> parseIndirectRefFromDict dict ''Kids'' = Some kidsRef
            \<and> objOffsets (int (obj kidsRef)) = Some kidsEntry
            \<and> readAnyObjectContent buffer (offset kidsEntry) = Inl e
            \<longrightarrow> kidsOfMap buffer objOffsets dict = Inl e)
       \<and> (parseKidsArray dict = [] \<and> parseIndirectRefFromDict dict ''Kids'' = Some kidsRef
            \<and> objOffsets (int (obj kidsRef)) = Some kidsEntry
            \<and> readAnyObjectContent buffer (offset kidsEntry) = Inr arrStr
            \<longrightarrow> kidsOfMap buffer objOffsets dict = Inr (parseKidsArrayFromArrayString arrStr))
       \<and> cntOrZero None = 0
       \<and> (c < 2 ^ 53 \<longrightarrow> cntOrZero (Some c) = c)
       \<and> (2 ^ 1024 - 2 ^ 970 \<le> c \<longrightarrow> cntOrZero (Some c) = 0)"
proof -
  let ?r = "traversePagesNodeMap (Suc stack) buffer objOffsets nodeRef"
  let ?t = "traversePagesNodeMap stack buffer objOffsets"
  have 1: "hasType ''Page'' dict \<longrightarrow> ?r = Inr 1"
    using assms by simp
  have 2: "\<not> hasType ''Page'' dict \<and> \<not> hasType ''Pages'' dict \<longrightarrow> ?r = Inr 0"
    using assms by simp
  have 3: "\<not> hasType ''Page'' dict \<and> hasType ''Pages'' dict \<and> kidsOfMap buffer objOffsets dict = Inr []
            \<and> exactCount (parseIntFromDict dict ''Count'')
            \<longrightarrow> ?r = Inr (cntOrZero (parseIntFromDict dict ''Count''))"
    using assms by simp
  have 4: "\<not> hasType ''Page'' dict \<and> hasType ''Pages'' dict \<and> kidsOfMap buffer objOffsets dict = Inr kids
            \<and> kids \<noteq> []
            \<and> (\<forall>k\<in>set kids. kidValueMap ?t buffer objOffsets k = Inr (f k))
            \<and> sum_list (map f kids) < 2 ^ 53
            \<and> exactCount (parseIntFromDict dict ''Count'')
            \<longrightarrow> ?r = Inr (if sum_list (map f kids) \<noteq> 0 then sum_list (map f kids)
                         else cntOrZero (parseIntFromDict dict ''Count''))"
  proof
    assume a: "\<not> hasType ''Page'' dict \<and> hasType ''Pages'' dict \<and> kidsOfMap buffer objOffsets dict = Inr kids
            \<and> kids \<noteq> []
            \<and> (\<forall>k\<in>set kids. kidValueMap ?t buffer objOffsets k = Inr (f k))
            \<and> sum_list (map f kids) < 2 ^ 53
            \<and> exactCount (parseIntFromDict dict ''Count'')"
    define total where "total = sum_list (map f kids)"
    from a have "kidsLoopMap ?t buffer objOffsets kids 0 = Inr (0 + sum_list (map f kids))"
      by (intro kidsLoopMap_sum) simp
    then have loop: "kidsLoopMap ?t buffer objOffsets kids 0 = Inr total"
      by (simp add: total_def)
    have "?r = Inr (if total \<noteq> 0 then total else cntOrZero (parseIntFromDict dict ''Count''))"
      using assms a loop by simp
    then show "?r = Inr (if sum_list (map f kids) \<noteq> 0 then sum_list (map f kids)
                      else cntOrZero (parseIntFromDict dict ''Count''))"
      unfolding total_def .
  qed
  have 5: "\<not> hasType ''Page'' dict \<and> hasType ''Pages'' dict
            \<and> kidsOfMap buffer objOffsets dict = Inr (ks1 @ k # ks2)
            \<and> (\<forall>k'\<in>set ks1. kidValueMap ?t buffer objOffsets k' = Inr (f k'))
            \<and> kidValueMap ?t buffer objOffsets k = Inl e
            \<longrightarrow> ?r = Inl e"
  proof
    assume a: "\<not> hasType ''Page'' dict \<and> hasType ''Pages'' dict
            \<and> kidsOfMap buffer objOffsets dict = Inr (ks1 @ k # ks2)
            \<and> (\<forall>k'\<in>set ks1. kidValueMap ?t buffer objOffsets k' = Inr (f k'))
            \<and> kidValueMap ?t buffer objOffsets k = Inl e"
    then have loop: "kidsLoopMap ?t buffer objOffsets (ks1 @ k # ks2) 0 = Inl e"
      by (intro kidsLoopMap_throws [where f = f]) simp_all
    show "?r = Inl e" using assms a loop by simp
  qed
  have 6: "\<not> hasType ''Page'' dict \<and> hasType ''Pages'' dict \<and> kidsOfMap buffer objOffsets dict = Inl e
            \<longrightarrow> ?r = Inl e"
    using assms by simp
  note ks = kidsOfMap_cases [of dict buffer objOffsets kidsRef kidsEntry e arrStr]
  note k1 = ks [THEN conjunct1]
    and k2 = ks [THEN conjunct2, THEN conjunct1]
    and k3 = ks [THEN conjunct2, THEN conjunct2, THEN conjunct1]
    and k4 = ks [THEN conjunct2, THEN conjunct2, THEN conjunct2, THEN conjunct1]
    and k5 = ks [THEN conjunct2, THEN conjunct2, THEN conjunct2, THEN conjunct2]
  note cs = cntOrZero_cases [of c]
  note c1 = cs [THEN conjunct1] and c2 = cs [THEN conjunct2, THEN conjunct1]
    and c3 = cs [THEN conjunct2, THEN conjunct2]
  show ?thesis
    by (intro conjI) (rule 1 2 3 4 5 6 k1 k2 k3 k4 k5 c1 c2 c3)+
qed

lemma treeFile_node:
  "treeOffsets 2 = Some \<lparr>offset = 0, generation = 0\<rparr>
 \<and> readIndirectObject treeFile 0 = Inr ''<< /Type /Pages /Kids [3 0 R 4 0 R 8 0 R] /Count 9 >>''
 \<and> \<not> hasType ''Page'' ''<< /Type /Pages /Kids [3 0 R 4 0 R 8 0 R] /Count 9 >>''
 \<and> hasType ''Pages'' ''<< /Type /Pages /Kids [3 0 R 4 0 R 8 0 R] /Count 9 >>''
 \<and> kidsOfMap treeFile treeOffsets ''<< /Type /Pages /Kids [3 0 R 4 0 R 8 0 R] /Count 9 >>''
      = Inr [\<lparr>obj = 3, gen = 0\<rparr>, \<lparr>obj = 4, gen = 0\<rparr>, \<lparr>obj = 8, gen = 0\<rparr>]
 \<and> parseIntFromDict ''<< /Type /Pages /Kids [3 0 R 4 0 R 8 0 R] /Count 9 >>'' ''Count'' = Some 9"
  by code_simp

lemma treeFile_kids:
  "kidValueMap (traversePagesNodeMap 1 treeFile treeOffsets) treeFile treeOffsets \<lparr>obj = 3, gen = 0\<rparr> = Inr 1
 \<and> kidValueMap (traversePagesNodeMap 1 treeFile treeOffsets) treeFile treeOffsets \<lparr>obj = 4, gen = 0\<rparr> = Inr 2
 \<and> kidValueMap (traversePagesNodeMap 1 treeFile treeOffsets) treeFile treeOffsets \<lparr>obj = 8, gen = 0\<rparr> = Inr 0"
  by code_simp

lemma emptyKidFile_node:
  "emptyKidOffsets 5 = Some \<lparr>offset = 91, generation = 0\<rparr>
 \<and> emptyKidOffsets 7 = None
 \<and> readIndirectObject emptyKidFile 91 = Inr ''<< /Type /Pages /Kids 7 0 R /Count 3 >>''
 \<and> \<not> hasType ''Page'' ''<< /Type /Pages /Kids 7 0 R /Count 3 >>''
 \<and> hasType ''Pages'' ''<< /Type /Pages /Kids 7 0 R /Count 3 >>''
 \<and> parseKidsArray ''<< /Type /Pages /Kids 7 0 R /Count 3 >>'' = []
 \<and> parseIndirectRefFromDict ''<< /Type /Pages /Kids 7 0 R /Count 3 >>'' ''Kids'' = Some \<lparr>obj = 7, gen = 0\<rparr>"
  by code_simp

theorem traversePagesNodeMap_node_witness:
  "treeOffsets (int (obj \<lparr>obj = 2, gen = 0\<rparr>)) = Some \<lparr>offset = 0, generation = 0\<rparr>
 \<and> readIndirectObject treeFile 0 = Inr ''<< /Type /Pages /Kids [3 0 R 4 0 R 8 0 R] /Count 9 >>''
 \<and> exactCount (parseIntFromDict ''<< /Type /Pages /Kids [3 0 R 4 0 R 8 0 R] /Count 9 >>'' ''Count'')
 \<and> traversePagesNodeMap 2 treeFile treeOffsets \<lparr>obj = 2, gen = 0\<rparr> = Inr 3
 \<and> readIndirectObject emptyKidFile 91 = Inr ''<< /Type /Pages /Kids 7 0 R /Count 3 >>''
 \<and> traversePagesNodeMap 2 emptyKidFile emptyKidOffsets \<lparr>obj = 5, gen = 0\<rparr>
      = Inl (Error ''Array object not found'')"
proof -
  let ?d = "''<< /Type /Pages /Kids [3 0 R 4 0 R 8 0 R] /Count 9 >>''"
  let ?kids = "[\<lparr>obj = 3, gen = 0\<rparr>, \<lparr>obj = 4, gen = 0\<rparr>, \<lparr>obj = 8, gen = 0\<rparr>]"
  let ?d5 = "''<< /Type /Pages /Kids 7 0 R /Count 3 >>''"
  have e: "treeOffsets (int (obj \<lparr>obj = 2, gen = 0\<rparr>)) = Some \<lparr>offset = 0, generation = 0\<rparr>"
    using treeFile_node [THEN conjunct1] by simp
  have r: "readIndirectObject treeFile (offset \<lparr>offset = 0, generation = 0\<rparr>) = Inr ?d"
    using treeFile_node by simp
  have k: "\<forall>k\<in>set ?kids.
             kidValueMap (traversePagesNodeMap 1 treeFile treeOffsets) treeFile treeOffsets k = Inr (treeKidValue k)"
    using treeFile_kids by (simp add: treeKidValue_def)
  have s: "sum_list (map treeKidValue ?kids) = 3" by (simp add: treeKidValue_def)
  have x: "exactCount (parseIntFromDict ?d ''Count'')"
    using treeFile_node by (simp add: exactCount_def)
  note t = traversePagesNodeMap_node [of treeOffsets "\<lparr>obj = 2, gen = 0\<rparr>"
      "\<lparr>offset = 0, generation = 0\<rparr>" treeFile ?d 1 ?kids treeKidValue, OF e r,
      THEN conjunct2, THEN conjunct2, THEN conjunct2, THEN conjunct1, rule_format]
  have "traversePagesNodeMap (Suc 1) treeFile treeOffsets \<lparr>obj = 2, gen = 0\<rparr> = Inr 3"
    using t treeFile_node k x unfolding s by simp
  then have 1: "traversePagesNodeMap 2 treeFile treeOffsets \<lparr>obj = 2, gen = 0\<rparr> = Inr 3"
    by (simp only: numeral_2_eq_2 One_nat_def)
  have e5: "emptyKidOffsets (int (obj \<lparr>obj = 5, gen = 0\<rparr>)) = Some \<lparr>offset = 91, generation = 0\<rparr>"
    using emptyKidFile_node [THEN conjunct1] by simp
  have r5: "readIndirectObject emptyKidFile (offset \<lparr>offset = 91, generation = 0\<rparr>) = Inr ?d5"
    using emptyKidFile_node by simp
  have m7: "emptyKidOffsets (int (obj \<lparr>obj = 7, gen = 0\<rparr>)) = None"
    using emptyKidFile_node by simp
  note u = traversePagesNodeMap_node [of emptyKidOffsets "\<lparr>obj = 5, gen = 0\<rparr>"
      "\<lparr>offset = 91, generation = 0\<rparr>" emptyKidFile ?d5 1 "[]" "\<lambda>k. 0" "[]" "\<lparr>obj = 7, gen = 0\<rparr>" "[]"
      "Error ''Array object not found''" "\<lparr>obj = 7, gen = 0\<rparr>", OF e5 r5]
  have ko: "kidsOfMap emptyKidFile emptyKidOffsets ?d5 = Inl (Error ''Array object not found'')"
    using u [THEN conjunct2, THEN conjunct2, THEN conjunct2, THEN conjunct2, THEN conjunct2,
             THEN conjunct2, THEN conjunct2, THEN conjunct2, THEN conjunct1]
      emptyKidFile_node m7 by simp
  have "traversePagesNodeMap (Suc 1) emptyKidFile emptyKidOffsets \<lparr>obj = 5, gen = 0\<rparr>
          = Inl (Error ''Array object not found'')"
    using u [THEN conjunct2, THEN conjunct2, THEN conjunct2, THEN conjunct2, THEN conjunct2, THEN conjunct1]
      emptyKidFile_node ko by simp
  then have 2: "traversePagesNodeMap 2 emptyKidFile emptyKidOffsets \<lparr>obj = 5, gen = 0\<rparr>
          = Inl (Error ''Array object not found'')"
    by (simp only: numeral_2_eq_2 One_nat_def)
  show ?thesis using e r x 1 r5 2 by simp
qed

theorem pages_node_count_fallback_counterexample:
  "parseKidsArray ''<< /Type /Pages /Kids [3 0 R] /Count 3 >>'' = [\<lparr>obj = 3, gen = 0\<rparr>]
 \<and> readIndirectObject emptyKidFile 0 = Inr ''<< /Type /Pages /Kids [3 0 R] /Count 3 >>''
 \<and> traversePagesNodeMap 2 emptyKidFile emptyKidOffsets \<lparr>obj = 3, gen = 0\<rparr> = Inr 0
 \<and> traversePagesNodeMap 3 emptyKidFile emptyKidOffsets \<lparr>obj = 2, gen = 0\<rparr> = Inr 3
 \<and> readIndirectObject emptyKidFile 91 = Inr ''<< /Type /Pages /Kids 7 0 R /Count 3 >>''
 \<and> traversePagesNodeMap 3 emptyKidFile emptyKidOffsets \<lparr>obj = 5, gen = 0\<rparr>
      = Inl (Error ''Array object not found'')"
  by code_simp

subsection \<open>Termination of the traversal\<close>

lemma bindR_Inr: "bindR r f = Inr v \<Longrightarrow> \<exists>x. r = Inr x \<and> f x = Inr v"
  by (cases r) simp_all

lemma bindR_RangeError:
  "bindR r f = Inl RangeError \<Longrightarrow> r = Inl RangeError \<or> (\<exists>x. r = Inr x \<and> f x = Inl RangeError)"
  by (cases r) simp_all

lemma kidsLoopMap_generic:
  "kidsLoopMap recur buffer objOffsets kids acc = kidsLoop recur (kidDictMap buffer objOffsets) kids acc"
proof (induction kids arbitrary: acc)
  case Nil
  show ?case by simp
next
  case (Cons k ks)
  have d: "kidDictMap buffer objOffsets k
             = (case objOffsets (int (obj k)) of
                  None \<Rightarrow> Inr None
                | Some childEntry \<Rightarrow>
                    bindR (readIndirectObject buffer (offset childEntry)) (\<lambda>cdict. Inr (Some cdict)))"
    by (simp add: kidDictMap_def)
  have k: "\<lparr>obj = obj k, gen = gen k\<rparr> = k" by simp
  show ?case
    by (cases "objOffsets (int (obj k))";
        cases "readIndirectObject buffer (offset (the (objOffsets (int (obj k)))))")
       (simp_all add: d k Cons.IH)
qed

lemma traversePagesNodeMap_generic:
  "traversePagesNodeMap stack buffer objOffsets nodeRef
     = traversePagesNode stack (nodeDictMap buffer objOffsets) (kidDictMap buffer objOffsets)
         (kidsOfMap buffer objOffsets) nodeRef"
proof (induction stack arbitrary: nodeRef)
  case 0
  show ?case by simp
next
  case (Suc stack)
  have f: "traversePagesNodeMap stack buffer objOffsets
             = traversePagesNode stack (nodeDictMap buffer objOffsets) (kidDictMap buffer objOffsets)
                 (kidsOfMap buffer objOffsets)"
    by (rule ext) (rule Suc.IH)
  have n: "nodeDictMap buffer objOffsets nodeRef
             = (case objOffsets (int (obj nodeRef)) of
                  None \<Rightarrow> Inl (Error ''Node not found'')
                | Some entry \<Rightarrow> readIndirectObject buffer (offset entry))"
    by (simp add: nodeDictMap_def)
  show ?case
    by (cases "objOffsets (int (obj nodeRef))")
       (simp_all add: n kidsLoopMap_generic f Let_def cong: if_cong)
qed

lemma kidsLoopXref_generic:
  "kidsLoopXref recur inflate buffer xm kids acc = kidsLoop recur (kidDictXref inflate buffer xm) kids acc"
proof (induction kids arbitrary: acc)
  case Nil
  show ?case by simp
next
  case (Cons k ks)
  have d: "kidDictXref inflate buffer xm k
             = bindR (getObjectDictViaXrefMap inflate buffer xm (obj k)) (\<lambda>cdict. Inr (Some cdict))"
    by (simp add: kidDictXref_def)
  show ?case
    by (cases "getObjectDictViaXrefMap inflate buffer xm (obj k)")
       (simp_all add: d Cons.IH)
qed

lemma traversePagesNodeXref_generic:
  "traversePagesNodeXref stack inflate buffer xm nodeRef
     = traversePagesNode stack (nodeDictXref inflate buffer xm) (kidDictXref inflate buffer xm)
         (kidsOfXref inflate buffer xm) nodeRef"
proof (induction stack arbitrary: nodeRef)
  case 0
  show ?case by simp
next
  case (Suc stack)
  have f: "traversePagesNodeXref stack inflate buffer xm
             = traversePagesNode stack (nodeDictXref inflate buffer xm) (kidDictXref inflate buffer xm)
                 (kidsOfXref inflate buffer xm)"
    by (rule ext) (rule Suc.IH)
  have n: "nodeDictXref inflate buffer xm nodeRef = getObjectDictViaXrefMap inflate buffer xm (obj nodeRef)"
    by (simp add: nodeDictXref_def)
  show ?case
    by (simp add: n kidsLoopXref_generic f Let_def cong: if_cong)
qed

lemma kidsLoop_mono:
  assumes "\<And>k. recur k \<noteq> Inl RangeError \<Longrightarrow> recur' k = recur k"
  shows "kidsLoop recur kidDict kids acc \<noteq> Inl RangeError
           \<Longrightarrow> kidsLoop recur' kidDict kids acc = kidsLoop recur kidDict kids acc"
proof (induction kids arbitrary: acc)
  case Nil
  show ?case by simp
next
  case (Cons k ks)
  show ?case
  proof (cases "kidDict k")
    case (Inl e)
    then show ?thesis by simp
  next
    case (Inr c)
    show ?thesis
    proof (cases "\<exists>cdict. c = Some cdict \<and> isPagesNode cdict")
      case False
      then show ?thesis using Inr Cons by (cases c) (auto simp: isPagesNode_def)
    next
      case True
      then obtain cdict where c: "c = Some cdict" and p: "\<not> hasType ''Page'' cdict" "hasType ''Pages'' cdict"
        by (auto simp: isPagesNode_def)
      show ?thesis
      proof (cases "recur k")
        case (Inl e)
        with Cons.prems Inr c p have "e \<noteq> RangeError" by auto
        with Inl have "recur' k = recur k" by (intro assms) simp
        with Inl Inr c p show ?thesis by simp
      next
        case r: (Inr n)
        then have "recur' k = recur k" by (intro assms) simp
        with r Inr c p Cons show ?thesis by simp
      qed
    qed
  qed
qed

lemma traversePagesNode_mono:
  "traversePagesNode stack nodeDict kidDict kidsOf nodeRef \<noteq> Inl RangeError
     \<Longrightarrow> traversePagesNode (stack + d) nodeDict kidDict kidsOf nodeRef
         = traversePagesNode stack nodeDict kidDict kidsOf nodeRef"
proof (induction stack arbitrary: nodeRef)
  case 0
  then show ?case by simp
next
  case (Suc stack)
  let ?t = "traversePagesNode stack nodeDict kidDict kidsOf"
  let ?t' = "traversePagesNode (stack + d) nodeDict kidDict kidsOf"
  have m: "\<And>k. ?t k \<noteq> Inl RangeError \<Longrightarrow> ?t' k = ?t k" by (rule Suc.IH)
  show ?case
  proof (cases "nodeDict nodeRef")
    case (Inl e)
    then show ?thesis by simp
  next
    case (Inr dict)
    show ?thesis
    proof (cases "kidsOf dict")
      case (Inl e)
      with Inr show ?thesis by simp
    next
      case k: (Inr kids)
      show ?thesis
      proof (cases "isPagesNode dict \<and> kids \<noteq> []")
        case False
        with Inr k show ?thesis by (auto simp: isPagesNode_def)
      next
        case True
        with Suc.prems Inr k have ne: "kidsLoop ?t kidDict kids 0 \<noteq> Inl RangeError"
          by (auto simp: isPagesNode_def)
        have "kidsLoop ?t' kidDict kids 0 = kidsLoop ?t kidDict kids 0"
        proof (rule kidsLoop_mono [where recur = ?t])
          fix k
          assume "?t k \<noteq> Inl RangeError"
          then show "?t' k = ?t k" by (rule m)
        next
          show "kidsLoop ?t kidDict kids 0 \<noteq> Inl RangeError" by (rule ne)
        qed
        with Inr k True show ?thesis by (simp add: isPagesNode_def)
      qed
    qed
  qed
qed

lemma kidsLoop_RangeError:
  "kidsLoop recur kidDict kids acc = Inl RangeError
     \<Longrightarrow> (\<exists>k\<in>set kids. kidDict k = Inl RangeError)
         \<or> (\<exists>k\<in>set kids. \<exists>cdict. kidDict k = Inr (Some cdict) \<and> isPagesNode cdict \<and> recur k = Inl RangeError)"
proof (induction kids arbitrary: acc)
  case Nil
  then show ?case by simp
next
  case (Cons k ks)
  show ?case
  proof (cases "kidDict k")
    case (Inl e)
    with Cons.prems show ?thesis by simp
  next
    case (Inr c)
    show ?thesis
    proof (cases "\<exists>cdict. c = Some cdict \<and> isPagesNode cdict")
      case False
      with Inr Cons.prems obtain acc' where "kidsLoop recur kidDict ks acc' = Inl RangeError"
        by (cases c) (auto simp: isPagesNode_def split: if_splits)
      from Cons.IH [OF this] show ?thesis by auto
    next
      case True
      then obtain cdict where c: "c = Some cdict" and p: "isPagesNode cdict" by blast
      show ?thesis
      proof (cases "recur k")
        case (Inl e)
        with Cons.prems Inr c p have "e = RangeError" by (simp add: isPagesNode_def)
        with Inl Inr c p show ?thesis by auto
      next
        case r: (Inr n)
        with Cons.prems Inr c p have "kidsLoop recur kidDict ks (acc + n) = Inl RangeError"
          by (simp add: isPagesNode_def)
        from Cons.IH [OF this] show ?thesis by auto
      qed
    qed
  qed
qed

lemma kidsLoop_Inr:
  "kidsLoop recur kidDict kids acc = Inr r \<Longrightarrow> k \<in> set kids \<Longrightarrow> kidDict k = Inr (Some cdict)
     \<Longrightarrow> isPagesNode cdict \<Longrightarrow> \<exists>v. recur k = Inr v"
proof (induction kids arbitrary: acc)
  case Nil
  then show ?case by simp
next
  case (Cons a ks)
  show ?case
  proof (cases "kidDict a")
    case (Inl e)
    with Cons.prems show ?thesis by simp
  next
    case (Inr c)
    show ?thesis
    proof (cases "\<exists>cd. c = Some cd \<and> isPagesNode cd")
      case False
      with Inr Cons.prems obtain acc' where l: "kidsLoop recur kidDict ks acc' = Inr r"
        by (cases c) (auto simp: isPagesNode_def split: if_splits)
      from False Inr Cons.prems have "k \<noteq> a" by auto
      with Cons.prems have "k \<in> set ks" by simp
      from Cons.IH [OF l this Cons.prems(3,4)] show ?thesis .
    next
      case True
      then obtain cd where c: "c = Some cd" and p: "isPagesNode cd" by blast
      from Cons.prems(1) Inr c p obtain n where n: "recur a = Inr n"
        and l: "kidsLoop recur kidDict ks (acc + n) = Inr r"
        by (cases "recur a") (auto simp: isPagesNode_def)
      show ?thesis
      proof (cases "k = a")
        case True
        with n show ?thesis by simp
      next
        case False
        with Cons.prems have "k \<in> set ks" by simp
        from Cons.IH [OF l this Cons.prems(3,4)] show ?thesis .
      qed
    qed
  qed
qed

lemma pagesKids_iff:
  "k \<in> set (pagesKids nodeDict kidDict kidsOf n)
     \<longleftrightarrow> (\<exists>dict kids cdict. nodeDict n = Inr dict \<and> isPagesNode dict \<and> kidsOf dict = Inr kids
            \<and> k \<in> set kids \<and> kidDict k = Inr (Some cdict) \<and> isPagesNode cdict)"
proof (cases "nodeDict n")
  case (Inl e)
  then show ?thesis by (simp add: pagesKids_def)
next
  case d: (Inr dict)
  show ?thesis
  proof (cases "kidsOf dict")
    case (Inl e)
    with d show ?thesis by (simp add: pagesKids_def)
  next
    case (Inr kids)
    with d show ?thesis
      by (cases "isPagesNode dict") (auto simp: pagesKids_def split: sum.splits option.splits)
  qed
qed

lemma traversePagesNode_Inr_acc:
  "traversePagesNode stack nodeDict kidDict kidsOf n = Inr v
     \<Longrightarrow> n \<in> Wellfounded.acc (kidEdges nodeDict kidDict kidsOf)"
proof (induction stack arbitrary: n v)
  case 0
  then show ?case by simp
next
  case (Suc stack)
  let ?t = "traversePagesNode stack nodeDict kidDict kidsOf"
  show ?case
  proof (rule accI)
    fix k
    assume "(k, n) \<in> kidEdges nodeDict kidDict kidsOf"
    then obtain dict kids cdict where d: "nodeDict n = Inr dict" and pd: "isPagesNode dict"
      and ks: "kidsOf dict = Inr kids" and k: "k \<in> set kids"
      and kd: "kidDict k = Inr (Some cdict)" and pc: "isPagesNode cdict"
      by (auto simp: kidEdges_def pagesKids_iff)
    from k have ne: "kids \<noteq> []" by auto
    from Suc.prems d pd ks ne obtain a where "kidsLoop ?t kidDict kids 0 = Inr a"
      by (cases "kidsLoop ?t kidDict kids 0") (auto simp: isPagesNode_def Let_def)
    from kidsLoop_Inr [OF this k kd pc] obtain w where "?t k = Inr w" ..
    then show "k \<in> Wellfounded.acc (kidEdges nodeDict kidDict kidsOf)" by (rule Suc.IH)
  qed
qed

lemma traversePagesNode_bound:
  "\<forall>k\<in>set ks. \<exists>s. traversePagesNode s nodeDict kidDict kidsOf k \<noteq> Inl RangeError
     \<Longrightarrow> \<exists>s. \<forall>k\<in>set ks. traversePagesNode s nodeDict kidDict kidsOf k \<noteq> Inl RangeError"
proof (induction ks)
  case Nil
  show ?case by simp
next
  case (Cons a ks)
  then obtain s1 where s1: "\<forall>k\<in>set ks. traversePagesNode s1 nodeDict kidDict kidsOf k \<noteq> Inl RangeError"
    by auto
  from Cons.prems obtain s2 where s2: "traversePagesNode s2 nodeDict kidDict kidsOf a \<noteq> Inl RangeError"
    by auto
  have "\<forall>k\<in>set (a # ks). traversePagesNode (s1 + s2) nodeDict kidDict kidsOf k \<noteq> Inl RangeError"
  proof
    fix k
    assume "k \<in> set (a # ks)"
    then consider "k = a" | "k \<in> set ks" by auto
    then show "traversePagesNode (s1 + s2) nodeDict kidDict kidsOf k \<noteq> Inl RangeError"
    proof cases
      case 1
      with s2 traversePagesNode_mono [of s2 nodeDict kidDict kidsOf a s1] show ?thesis
        by (simp add: add.commute)
    next
      case 2
      with s1 traversePagesNode_mono [of s1 nodeDict kidDict kidsOf k s2] show ?thesis
        by simp
    qed
  qed
  then show ?case ..
qed

lemma traversePagesNode_acc_returns:
  assumes nd: "\<And>n. nodeDict n \<noteq> Inl RangeError"
    and kd: "\<And>k. kidDict k \<noteq> Inl RangeError"
    and ko: "\<And>d. kidsOf d \<noteq> Inl RangeError"
  shows "n \<in> Wellfounded.acc (kidEdges nodeDict kidDict kidsOf)
           \<Longrightarrow> \<exists>s. traversePagesNode s nodeDict kidDict kidsOf n \<noteq> Inl RangeError"
proof (induction n rule: acc.induct)
  case (accI x)
  have "\<forall>k\<in>set (pagesKids nodeDict kidDict kidsOf x).
          \<exists>s. traversePagesNode s nodeDict kidDict kidsOf k \<noteq> Inl RangeError"
    using accI.IH by (simp add: kidEdges_def)
  then obtain s where s: "\<forall>k\<in>set (pagesKids nodeDict kidDict kidsOf x).
          traversePagesNode s nodeDict kidDict kidsOf k \<noteq> Inl RangeError"
    using traversePagesNode_bound by blast
  let ?t = "traversePagesNode s nodeDict kidDict kidsOf"
  have "traversePagesNode (Suc s) nodeDict kidDict kidsOf x \<noteq> Inl RangeError"
  proof
    assume re: "traversePagesNode (Suc s) nodeDict kidDict kidsOf x = Inl RangeError"
    from re nd [of x] obtain dict where d: "nodeDict x = Inr dict"
      by (cases "nodeDict x") auto
    from re d have pd: "isPagesNode dict"
      by (auto simp: isPagesNode_def split: if_splits)
    from re d pd ko [of dict] obtain kids where ks: "kidsOf dict = Inr kids"
      by (cases "kidsOf dict") (auto simp: isPagesNode_def Let_def)
    from re d pd ks have l: "kidsLoop ?t kidDict kids 0 = Inl RangeError"
      by (cases "kidsLoop ?t kidDict kids 0") (auto simp: isPagesNode_def Let_def split: if_splits)
    from kidsLoop_RangeError [OF l] kd obtain k cdict where "k \<in> set kids"
      and "kidDict k = Inr (Some cdict)" and "isPagesNode cdict" and r: "?t k = Inl RangeError"
      by blast
    with d pd ks have "k \<in> set (pagesKids nodeDict kidDict kidsOf x)"
      unfolding pagesKids_iff by blast
    with s r show False by blast
  qed
  then show ?case ..
qed

lemma acc_no_cycle: "x \<in> Wellfounded.acc r \<Longrightarrow> (x, x) \<notin> r\<^sup>+"
proof (induction x rule: acc.induct)
  case (accI x)
  show ?case
  proof
    assume "(x, x) \<in> r\<^sup>+"
    then obtain y where xy: "(x, y) \<in> r\<^sup>*" and yx: "(y, x) \<in> r"
      by (meson tranclD2)
    from yx xy have "(y, y) \<in> r\<^sup>+" by (rule rtrancl_into_trancl2)
    with accI.IH [OF yx] show False by contradiction
  qed
qed

lemma acc_reachable_no_cycle:
  "n \<in> Wellfounded.acc r \<Longrightarrow> (c, n) \<in> r\<^sup>* \<Longrightarrow> (c, c) \<notin> r\<^sup>+"
proof -
  assume "n \<in> Wellfounded.acc r" and "(c, n) \<in> r\<^sup>*"
  then have "c \<in> Wellfounded.acc r" by (rule acc_downwards)
  then show ?thesis by (rule acc_no_cycle)
qed

lemma finite_acyclic_acc:
  assumes fin: "finite {k. (k, n) \<in> r\<^sup>*}"
    and cyc: "\<And>c. (c, n) \<in> r\<^sup>* \<Longrightarrow> (c, c) \<notin> r\<^sup>+"
  shows "n \<in> Wellfounded.acc r"
proof -
  define R where "R = {k. (k, n) \<in> r\<^sup>*}"
  define r' where "r' = r \<inter> (R \<times> R)"
  have "finite r'" unfolding r'_def using fin by (simp add: R_def)
  moreover have "acyclic r'"
  proof (rule acyclicI, rule allI, rule notI)
    fix c
    assume c: "(c, c) \<in> r'\<^sup>+"
    have "r' \<subseteq> r" by (simp add: r'_def)
    then have "(c, c) \<in> r\<^sup>+" using c trancl_mono by blast
    moreover have "c \<in> R" using c by (auto simp: r'_def dest: tranclD)
    ultimately show False using cyc by (simp add: R_def)
  qed
  ultimately have "wf r'" by (rule finite_acyclic_wf)
  then have "x \<in> R \<longrightarrow> x \<in> Wellfounded.acc r" for x
  proof (induction x rule: wf_induct_rule)
    case (less x)
    show ?case
    proof
      assume x: "x \<in> R"
      show "x \<in> Wellfounded.acc r"
      proof (rule accI)
        fix y
        assume yx: "(y, x) \<in> r"
        with x have "y \<in> R" by (auto simp: R_def intro: converse_rtrancl_into_rtrancl)
        with yx x have "(y, x) \<in> r'" by (simp add: r'_def)
        from less.IH [OF this] \<open>y \<in> R\<close> show "y \<in> Wellfounded.acc r" by simp
      qed
    qed
  qed
  moreover have "n \<in> R" by (simp add: R_def)
  ultimately show ?thesis by simp
qed

lemma readDictString_plain: "readDictString buffer pos \<noteq> Inl RangeError"
  by (simp add: readDictString_def)

lemma readIndirectObject_plain: "readIndirectObject buffer offs \<noteq> Inl RangeError"
  by (auto simp: readIndirectObject_def readDictString_def Let_def split: prod.splits)

lemma readAnyObjectContent_plain: "readAnyObjectContent buffer offs \<noteq> Inl RangeError"
  by (auto simp: readAnyObjectContent_def readDictString_def readArrayString_def Let_def split: prod.splits)

lemma readStreamObject_plain: "readStreamObject buffer offs \<noteq> Inl RangeError"
  by (auto simp: readStreamObject_def readDictString_def Let_def split: option.splits prod.splits)

lemma getObjectDictViaXrefMap_plain: "getObjectDictViaXrefMap inflate buffer xm objNum \<noteq> Inl RangeError"
proof
  assume a: "getObjectDictViaXrefMap inflate buffer xm objNum = Inl RangeError"
  show False
  proof (cases "objToOffset xm (int objNum)")
    case (Some off)
    with a readIndirectObject_plain [of buffer "offset off"] show False
      by (simp add: getObjectDictViaXrefMap_def)
  next
    case None
    with a obtain os osLoc where os: "objToObjStm xm (int objNum) = Some os"
      and osLoc: "objToOffset xm (int (objstm os)) = Some osLoc"
      by (auto simp: getObjectDictViaXrefMap_def split: option.splits)
    from readStreamObject_plain [of buffer "offset osLoc"] a None os osLoc
    obtain osObj where "readStreamObject buffer (offset osLoc) = Inr osObj"
      by (cases "readStreamObject buffer (offset osLoc)") (auto simp: getObjectDictViaXrefMap_def)
    with a None os osLoc show False
      by (auto simp: getObjectDictViaXrefMap_def readDictString_def split: option.splits if_splits prod.splits)
  qed
qed

lemma getObjectContentViaXrefMap_plain: "getObjectContentViaXrefMap inflate buffer xm objNum \<noteq> Inl RangeError"
proof
  assume a: "getObjectContentViaXrefMap inflate buffer xm objNum = Inl RangeError"
  show False
  proof (cases "objToOffset xm (int objNum)")
    case (Some off)
    with a readAnyObjectContent_plain [of buffer "offset off"] show False
      by (simp add: getObjectContentViaXrefMap_def)
  next
    case None
    with a obtain os osLoc where os: "objToObjStm xm (int objNum) = Some os"
      and osLoc: "objToOffset xm (int (objstm os)) = Some osLoc"
      by (auto simp: getObjectContentViaXrefMap_def split: option.splits)
    from readStreamObject_plain [of buffer "offset osLoc"] a None os osLoc
    obtain osObj where "readStreamObject buffer (offset osLoc) = Inr osObj"
      by (cases "readStreamObject buffer (offset osLoc)") (auto simp: getObjectContentViaXrefMap_def)
    with a None os osLoc show False
      by (auto simp: getObjectContentViaXrefMap_def Let_def split: option.splits if_splits prod.splits)
  qed
qed

lemma nodeDictMap_plain: "nodeDictMap buffer objOffsets n \<noteq> Inl RangeError"
  using readIndirectObject_plain by (simp add: nodeDictMap_def split: option.splits)

lemma kidDictMap_plain: "kidDictMap buffer objOffsets k \<noteq> Inl RangeError"
proof (cases "objOffsets (int (obj k))")
  case None
  then show ?thesis by (simp add: kidDictMap_def)
next
  case (Some e)
  with readIndirectObject_plain [of buffer "offset e"] show ?thesis
    by (cases "readIndirectObject buffer (offset e)") (simp_all add: kidDictMap_def)
qed

lemma kidsOfMap_plain: "kidsOfMap buffer objOffsets dict \<noteq> Inl RangeError"
proof (cases "parseKidsArray dict = [] \<and> parseIndirectRefFromDict dict ''Kids'' \<noteq> None")
  case False
  then show ?thesis by (auto simp: kidsOfMap_def Let_def)
next
  case True
  then obtain kidsRef where k: "parseIndirectRefFromDict dict ''Kids'' = Some kidsRef" by auto
  show ?thesis
  proof (cases "objOffsets (int (obj kidsRef))")
    case None
    with True k show ?thesis by (simp add: kidsOfMap_def Let_def getArrayContentViaOffsets_def)
  next
    case (Some e)
    with True k readAnyObjectContent_plain [of buffer "offset e"] show ?thesis
      by (cases "readAnyObjectContent buffer (offset e)")
         (simp_all add: kidsOfMap_def Let_def getArrayContentViaOffsets_def)
  qed
qed

lemma nodeDictXref_plain: "nodeDictXref inflate buffer xm n \<noteq> Inl RangeError"
  using getObjectDictViaXrefMap_plain by (simp add: nodeDictXref_def)

lemma kidDictXref_plain: "kidDictXref inflate buffer xm k \<noteq> Inl RangeError"
  using getObjectDictViaXrefMap_plain [of inflate buffer xm "obj k"]
  by (cases "getObjectDictViaXrefMap inflate buffer xm (obj k)") (simp_all add: kidDictXref_def)

lemma kidsOfXref_plain: "kidsOfXref inflate buffer xm dict \<noteq> Inl RangeError"
proof (cases "parseKidsArray dict = [] \<and> parseIndirectRefFromDict dict ''Kids'' \<noteq> None")
  case False
  then show ?thesis by (auto simp: kidsOfXref_def Let_def)
next
  case True
  then obtain kidsRef where k: "parseIndirectRefFromDict dict ''Kids'' = Some kidsRef" by auto
  with True getObjectContentViaXrefMap_plain [of inflate buffer xm "obj kidsRef"] show ?thesis
    by (cases "getObjectContentViaXrefMap inflate buffer xm (obj kidsRef)")
       (simp_all add: kidsOfXref_def Let_def)
qed

lemma traversePagesNodeMap_mono:
  "traversePagesNodeMap s buffer objOffsets n \<noteq> Inl RangeError
     \<Longrightarrow> traversePagesNodeMap (s + d) buffer objOffsets n = traversePagesNodeMap s buffer objOffsets n"
  unfolding traversePagesNodeMap_generic by (rule traversePagesNode_mono)

lemma traversePagesNodeMap_acc_returns:
  "n \<in> Wellfounded.acc (kidEdgesMap buffer objOffsets)
     \<Longrightarrow> \<exists>s. traversePagesNodeMap s buffer objOffsets n \<noteq> Inl RangeError"
  unfolding traversePagesNodeMap_generic kidEdgesMap_def
  by (rule traversePagesNode_acc_returns) (rule nodeDictMap_plain kidDictMap_plain kidsOfMap_plain)+

lemma traversePagesNodeMap_Inr_acc:
  "traversePagesNodeMap s buffer objOffsets n = Inr v \<Longrightarrow> n \<in> Wellfounded.acc (kidEdgesMap buffer objOffsets)"
  unfolding traversePagesNodeMap_generic kidEdgesMap_def by (rule traversePagesNode_Inr_acc)

lemma traversePagesNodeXref_mono:
  "traversePagesNodeXref s inflate buffer xm n \<noteq> Inl RangeError
     \<Longrightarrow> traversePagesNodeXref (s + d) inflate buffer xm n = traversePagesNodeXref s inflate buffer xm n"
  unfolding traversePagesNodeXref_generic by (rule traversePagesNode_mono)

lemma traversePagesNodeXref_acc_returns:
  "n \<in> Wellfounded.acc (kidEdgesXref inflate buffer xm)
     \<Longrightarrow> \<exists>s. traversePagesNodeXref s inflate buffer xm n \<noteq> Inl RangeError"
  unfolding traversePagesNodeXref_generic kidEdgesXref_def
  by (rule traversePagesNode_acc_returns) (rule nodeDictXref_plain kidDictXref_plain kidsOfXref_plain)+

lemma traversePagesNodeXref_Inr_acc:
  "traversePagesNodeXref s inflate buffer xm n = Inr v
     \<Longrightarrow> n \<in> Wellfounded.acc (kidEdgesXref inflate buffer xm)"
  unfolding traversePagesNodeXref_generic kidEdgesXref_def by (rule traversePagesNode_Inr_acc)

text \<open>
  C9, as the code has it. Neither traversal looks for a cycle or counts its depth. The
  relation of a kid to its node is that of the calls: the kid is a pages node among the
  kids of a pages node, and both can be read. For each traversal:
  \<^item> what it gives on a stack that is large enough, it gives on every larger stack;
  \<^item> from a node where no infinite chain of such kids starts, it ends on some stack,
    with a count or with an exception other than the overflow of the stack;
  \<^item> no infinite chain starts at a node from which finitely many nodes can be reached
    and none of them is on a cycle;
  \<^item> when it returns a count, no infinite chain starts at the node, and no node that
    can be reached from it is on a cycle.
\<close>

theorem traversal_ends_without_cycle:
  "(traversePagesNodeMap s buffer objOffsets n \<noteq> Inl RangeError
      \<longrightarrow> traversePagesNodeMap (s + d) buffer objOffsets n = traversePagesNodeMap s buffer objOffsets n)
 \<and> (n \<in> Wellfounded.acc (kidEdgesMap buffer objOffsets)
      \<longrightarrow> (\<exists>s. traversePagesNodeMap s buffer objOffsets n \<noteq> Inl RangeError))
 \<and> (finite {k. (k, n) \<in> (kidEdgesMap buffer objOffsets)\<^sup>*}
      \<and> (\<forall>c. (c, n) \<in> (kidEdgesMap buffer objOffsets)\<^sup>* \<longrightarrow> (c, c) \<notin> (kidEdgesMap buffer objOffsets)\<^sup>+)
      \<longrightarrow> n \<in> Wellfounded.acc (kidEdgesMap buffer objOffsets))
 \<and> (traversePagesNodeMap s buffer objOffsets n = Inr v
      \<longrightarrow> n \<in> Wellfounded.acc (kidEdgesMap buffer objOffsets)
          \<and> (\<forall>c. (c, n) \<in> (kidEdgesMap buffer objOffsets)\<^sup>* \<longrightarrow> (c, c) \<notin> (kidEdgesMap buffer objOffsets)\<^sup>+))
 \<and> (traversePagesNodeXref s inflate buffer xm n \<noteq> Inl RangeError
      \<longrightarrow> traversePagesNodeXref (s + d) inflate buffer xm n = traversePagesNodeXref s inflate buffer xm n)
 \<and> (n \<in> Wellfounded.acc (kidEdgesXref inflate buffer xm)
      \<longrightarrow> (\<exists>s. traversePagesNodeXref s inflate buffer xm n \<noteq> Inl RangeError))
 \<and> (finite {k. (k, n) \<in> (kidEdgesXref inflate buffer xm)\<^sup>*}
      \<and> (\<forall>c. (c, n) \<in> (kidEdgesXref inflate buffer xm)\<^sup>* \<longrightarrow> (c, c) \<notin> (kidEdgesXref inflate buffer xm)\<^sup>+)
      \<longrightarrow> n \<in> Wellfounded.acc (kidEdgesXref inflate buffer xm))
 \<and> (traversePagesNodeXref s inflate buffer xm n = Inr v
      \<longrightarrow> n \<in> Wellfounded.acc (kidEdgesXref inflate buffer xm)
          \<and> (\<forall>c. (c, n) \<in> (kidEdgesXref inflate buffer xm)\<^sup>* \<longrightarrow> (c, c) \<notin> (kidEdgesXref inflate buffer xm)\<^sup>+))"
proof -
  have m1: "traversePagesNodeMap s buffer objOffsets n \<noteq> Inl RangeError
      \<longrightarrow> traversePagesNodeMap (s + d) buffer objOffsets n = traversePagesNodeMap s buffer objOffsets n"
    by (rule impI) (rule traversePagesNodeMap_mono)
  have m2: "n \<in> Wellfounded.acc (kidEdgesMap buffer objOffsets)
      \<longrightarrow> (\<exists>s. traversePagesNodeMap s buffer objOffsets n \<noteq> Inl RangeError)"
    by (rule impI) (rule traversePagesNodeMap_acc_returns)
  have m3: "finite {k. (k, n) \<in> (kidEdgesMap buffer objOffsets)\<^sup>*}
      \<and> (\<forall>c. (c, n) \<in> (kidEdgesMap buffer objOffsets)\<^sup>* \<longrightarrow> (c, c) \<notin> (kidEdgesMap buffer objOffsets)\<^sup>+)
      \<longrightarrow> n \<in> Wellfounded.acc (kidEdgesMap buffer objOffsets)"
    using finite_acyclic_acc [of n "kidEdgesMap buffer objOffsets"] by blast
  have m4: "traversePagesNodeMap s buffer objOffsets n = Inr v
      \<longrightarrow> n \<in> Wellfounded.acc (kidEdgesMap buffer objOffsets)
          \<and> (\<forall>c. (c, n) \<in> (kidEdgesMap buffer objOffsets)\<^sup>* \<longrightarrow> (c, c) \<notin> (kidEdgesMap buffer objOffsets)\<^sup>+)"
    using traversePagesNodeMap_Inr_acc [of s buffer objOffsets n v]
      acc_reachable_no_cycle [of n "kidEdgesMap buffer objOffsets"] by blast
  have x1: "traversePagesNodeXref s inflate buffer xm n \<noteq> Inl RangeError
      \<longrightarrow> traversePagesNodeXref (s + d) inflate buffer xm n = traversePagesNodeXref s inflate buffer xm n"
    by (rule impI) (rule traversePagesNodeXref_mono)
  have x2: "n \<in> Wellfounded.acc (kidEdgesXref inflate buffer xm)
      \<longrightarrow> (\<exists>s. traversePagesNodeXref s inflate buffer xm n \<noteq> Inl RangeError)"
    by (rule impI) (rule traversePagesNodeXref_acc_returns)
  have x3: "finite {k. (k, n) \<in> (kidEdgesXref inflate buffer xm)\<^sup>*}
      \<and> (\<forall>c. (c, n) \<in> (kidEdgesXref inflate buffer xm)\<^sup>* \<longrightarrow> (c, c) \<notin> (kidEdgesXref inflate buffer xm)\<^sup>+)
      \<longrightarrow> n \<in> Wellfounded.acc (kidEdgesXref inflate buffer xm)"
    using finite_acyclic_acc [of n "kidEdgesXref inflate buffer xm"] by blast
  have x4: "traversePagesNodeXref s inflate buffer xm n = Inr v
      \<longrightarrow> n \<in> Wellfounded.acc (kidEdgesXref inflate buffer xm)
          \<and> (\<forall>c. (c, n) \<in> (kidEdgesXref inflate buffer xm)\<^sup>* \<longrightarrow> (c, c) \<notin> (kidEdgesXref inflate buffer xm)\<^sup>+)"
    using traversePagesNodeXref_Inr_acc [of s inflate buffer xm n v]
      acc_reachable_no_cycle [of n "kidEdgesXref inflate buffer xm"] by blast
  show ?thesis
    by (intro conjI) (rule m1 m2 m3 m4 x1 x2 x3 x4)+
qed

lemma treeFile_pagesKids:
  "pagesKids (nodeDictMap treeFile treeOffsets) (kidDictMap treeFile treeOffsets) (kidsOfMap treeFile treeOffsets)
     \<lparr>obj = 2, gen = 0\<rparr> = [\<lparr>obj = 4, gen = 0\<rparr>]
 \<and> pagesKids (nodeDictMap treeFile treeOffsets) (kidDictMap treeFile treeOffsets) (kidsOfMap treeFile treeOffsets)
     \<lparr>obj = 4, gen = 0\<rparr> = []
 \<and> traversePagesNodeMap 2 treeFile treeOffsets \<lparr>obj = 2, gen = 0\<rparr> = Inr 3"
  by code_simp

theorem traversal_ends_without_cycle_witness:
  "\<lparr>obj = 2, gen = 0\<rparr> \<in> Wellfounded.acc (kidEdgesMap treeFile treeOffsets)
 \<and> (\<exists>s. traversePagesNodeMap s treeFile treeOffsets \<lparr>obj = 2, gen = 0\<rparr> \<noteq> Inl RangeError)
 \<and> (\<forall>d. traversePagesNodeMap (2 + d) treeFile treeOffsets \<lparr>obj = 2, gen = 0\<rparr> = Inr 3)
 \<and> (\<lparr>obj = 2, gen = 0\<rparr>, \<lparr>obj = 2, gen = 0\<rparr>) \<notin> (kidEdgesMap treeFile treeOffsets)\<^sup>+"
proof -
  let ?E = "kidEdgesMap treeFile treeOffsets"
  have a4: "\<lparr>obj = 4, gen = 0\<rparr> \<in> Wellfounded.acc ?E"
    by (rule accI) (simp add: kidEdgesMap_def kidEdges_def treeFile_pagesKids)
  have a2: "\<lparr>obj = 2, gen = 0\<rparr> \<in> Wellfounded.acc ?E"
    by (rule accI) (simp add: kidEdgesMap_def kidEdges_def treeFile_pagesKids a4 [unfolded kidEdgesMap_def kidEdges_def])
  have v: "traversePagesNodeMap 2 treeFile treeOffsets \<lparr>obj = 2, gen = 0\<rparr> = Inr 3"
    using treeFile_pagesKids by simp
  note t = traversal_ends_without_cycle [of _ treeFile treeOffsets "\<lparr>obj = 2, gen = 0\<rparr>"]
  have e: "\<exists>s. traversePagesNodeMap s treeFile treeOffsets \<lparr>obj = 2, gen = 0\<rparr> \<noteq> Inl RangeError"
    using t [THEN conjunct2, THEN conjunct1] a2 by blast
  have m: "traversePagesNodeMap (2 + d) treeFile treeOffsets \<lparr>obj = 2, gen = 0\<rparr> = Inr 3" for d
    using traversal_ends_without_cycle [of 2 treeFile treeOffsets "\<lparr>obj = 2, gen = 0\<rparr>" d, THEN conjunct1] v
    by simp
  have c: "(\<lparr>obj = 2, gen = 0\<rparr>, \<lparr>obj = 2, gen = 0\<rparr>) \<notin> ?E\<^sup>+"
    using traversal_ends_without_cycle [of 2 treeFile treeOffsets "\<lparr>obj = 2, gen = 0\<rparr>" 0 3,
        THEN conjunct2, THEN conjunct2, THEN conjunct2, THEN conjunct1] v
    by blast
  show ?thesis using a2 e m c by blast
qed

lemma cycleFile_values:
  "pagesKids (nodeDictMap cycleFile cycleOffsets) (kidDictMap cycleFile cycleOffsets) (kidsOfMap cycleFile cycleOffsets)
     \<lparr>obj = 2, gen = 0\<rparr> = [\<lparr>obj = 2, gen = 0\<rparr>]
 \<and> traversePagesNodeMap 1 cycleFile cycleOffsets \<lparr>obj = 2, gen = 0\<rparr> = Inl (Error ''Invalid object header'')
 \<and> traversePagesNodeMap 5 cycleFile cycleOffsets \<lparr>obj = 2, gen = 0\<rparr> = Inl (Error ''Invalid object header'')
 \<and> pagesKids (nodeDictMap cycleFile cycleOffsets) (kidDictMap cycleFile cycleOffsets) (kidsOfMap cycleFile cycleOffsets)
     \<lparr>obj = 3, gen = 0\<rparr> = [\<lparr>obj = 3, gen = 0\<rparr>]
 \<and> traversePagesNodeMap 5 cycleFile cycleOffsets \<lparr>obj = 3, gen = 0\<rparr> = Inl RangeError"
  by code_simp

theorem cyclic_kids_traversal_ends_counterexample:
  "(\<lparr>obj = 2, gen = 0\<rparr>, \<lparr>obj = 2, gen = 0\<rparr>) \<in> kidEdgesMap cycleFile cycleOffsets
 \<and> traversePagesNodeMap 1 cycleFile cycleOffsets \<lparr>obj = 2, gen = 0\<rparr> = Inl (Error ''Invalid object header'')
 \<and> traversePagesNodeMap 5 cycleFile cycleOffsets \<lparr>obj = 2, gen = 0\<rparr> = Inl (Error ''Invalid object header'')
 \<and> (\<lparr>obj = 3, gen = 0\<rparr>, \<lparr>obj = 3, gen = 0\<rparr>) \<in> kidEdgesMap cycleFile cycleOffsets
 \<and> traversePagesNodeMap 5 cycleFile cycleOffsets \<lparr>obj = 3, gen = 0\<rparr> = Inl RangeError"
  using cycleFile_values by (simp add: kidEdgesMap_def kidEdges_def)

end
